theory Spec2Isabelle
  imports Main "HOL-Library.Sublist" "HOL-Library.Code_Target_Nat"
begin

section \<open>Strings\<close>

text \<open>
  The page is a React component (\<^verbatim>\<open>frontend/src/app/page.tsx\<close>). Its strings are
  modelled as \<^typ>\<open>string\<close>: ASCII text stands as it is, and a character beyond ASCII
  stands as its UTF-8 bytes, so equality and substring tests agree with the
  source on every text. The pictographs of the notification messages are named
  once here.
\<close>

definition dquote :: string where
  "dquote = [CHR 0x22]"

definition check_mark :: string where
  "check_mark = [CHR 0xE2, CHR 0x9C, CHR 0x85]"

definition cross_mark :: string where
  "cross_mark = [CHR 0xE2, CHR 0x9D, CHR 0x8C]"

definition party_popper :: string where
  "party_popper = [CHR 0xF0, CHR 0x9F, CHR 0x8E, CHR 0x89]"

definition warning_sign :: string where
  "warning_sign = [CHR 0xE2, CHR 0x9A, CHR 0xA0, CHR 0xEF, CHR 0xB8, CHR 0x8F]"

definition stopwatch :: string where
  "stopwatch = [CHR 0xE2, CHR 0x8F, CHR 0xB1, CHR 0xEF, CHR 0xB8, CHR 0x8F]"

definition light_bulb :: string where
  "light_bulb = [CHR 0xF0, CHR 0x9F, CHR 0x92, CHR 0xA1]"

definition magnifier_left :: string where
  "magnifier_left = [CHR 0xF0, CHR 0x9F, CHR 0x94, CHR 0x8D]"

definition magnifier_right :: string where
  "magnifier_right = [CHR 0xF0, CHR 0x9F, CHR 0x94, CHR 0x8E]"

definition clipboard :: string where
  "clipboard = [CHR 0xF0, CHR 0x9F, CHR 0x93, CHR 0x8B]"

definition tools :: string where
  "tools = [CHR 0xF0, CHR 0x9F, CHR 0x9B, CHR 0xA0, CHR 0xEF, CHR 0xB8, CHR 0x8F]"

definition bar_chart :: string where
  "bar_chart = [CHR 0xF0, CHR 0x9F, CHR 0x93, CHR 0x8A]"

definition section_sign :: string where
  "section_sign = [CHR 0xC2, CHR 0xA7]"

text \<open>The lower-case form of one ASCII character: the letters A to Z are
  lowered, every other byte is kept.\<close>

definition lowerChar :: "char \<Rightarrow> char" where
  "lowerChar c =
     (case map_of (zip ''ABCDEFGHIJKLMNOPQRSTUVWXYZ'' ''abcdefghijklmnopqrstuvwxyz'') c of
        Some d \<Rightarrow> d
      | None \<Rightarrow> c)"

text \<open>
  \<^verbatim>\<open>String.prototype.toLowerCase\<close>. Besides A to Z, two characters beyond ASCII
  lower to ASCII letters: the Kelvin sign U+212A becomes \<open>k\<close>, and the capital I
  with a dot above, U+0130, becomes \<open>i\<close> followed by the combining dot U+0307.
  Every other character beyond ASCII lowers to characters beyond ASCII; the
  source only searches the lowered name for ASCII words and ASCII extensions,
  which no byte of those characters can match, so their bytes are kept as they
  are.
\<close>

definition kelvin_sign :: string where
  "kelvin_sign = [CHR 0xE2, CHR 0x84, CHR 0xAA]"

definition capital_i_dotted :: string where
  "capital_i_dotted = [CHR 0xC4, CHR 0xB0]"

definition combining_dot_above :: string where
  "combining_dot_above = [CHR 0xCC, CHR 0x87]"

fun toLowerCase :: "string \<Rightarrow> string" where
  "toLowerCase [] = []"
| "toLowerCase (c # cs) =
     (if prefix kelvin_sign (c # cs) then CHR ''k'' # toLowerCase (drop 2 cs)
      else if prefix capital_i_dotted (c # cs)
      then CHR ''i'' # combining_dot_above @ toLowerCase (drop 1 cs)
      else lowerChar c # toLowerCase cs)"

declare toLowerCase.simps(2) [simp del]

text \<open>\<^verbatim>\<open>s.includes(p)\<close>: \<open>p\<close> occurs in \<open>s\<close> as a contiguous run.\<close>

fun includes_str :: "string \<Rightarrow> string \<Rightarrow> bool" where
  "includes_str [] p = (p = [])"
| "includes_str (c # cs) p = (prefix p (c # cs) \<or> includes_str cs p)"

text \<open>
  \<^verbatim>\<open>s.substring(0, n)\<close>: the first \<open>n\<close> UTF-16 code units of \<open>s\<close>. A character of
  one to three bytes is one code unit; a character of four bytes is two (a
  surrogate pair), and a cut between the two leaves the high surrogate alone,
  which stands here as the three bytes of its generalised UTF-8 form.
\<close>

definition utf8Width :: "char \<Rightarrow> nat" where
  "utf8Width c =
     (if of_char c < (0xC0 :: nat) then 1
      else if of_char c < (0xE0 :: nat) then 2
      else if of_char c < (0xF0 :: nat) then 3
      else 4)"

definition highSurrogate :: "string \<Rightarrow> string" where
  "highSurrogate q =
     (case q of
        [c0, c1, c2, c3] \<Rightarrow>
          [CHR 0xED,
           char_of (0xA0 + (4 * (of_char c0 mod 8) + (of_char c1 div 16) mod 4 - 1 :: nat)),
           char_of (0x80 + (4 * (of_char c1 mod 16) + (of_char c2 div 16) mod 4 :: nat))]
      | _ \<Rightarrow> q)"

fun substring_to :: "nat \<Rightarrow> string \<Rightarrow> string" where
  "substring_to n [] = []"
| "substring_to n (c # cs) =
     (if n = 0 then []
      else if utf8Width c < 4
      then c # take (utf8Width c - 1) cs @
           substring_to (n - 1) (drop (utf8Width c - 1) cs)
      else if n = 1 then highSurrogate (c # take 3 cs)
      else c # take 3 cs @ substring_to (n - 2) (drop 3 cs))"

declare substring_to.simps(2) [simp del]

text \<open>\<^verbatim>\<open>xs.join(sep)\<close>.\<close>

fun join :: "string \<Rightarrow> string list \<Rightarrow> string" where
  "join sep [] = []"
| "join sep [x] = x"
| "join sep (x # y # ys) = x @ sep @ join sep (y # ys)"

text \<open>The decimal rendering of a natural number inside a template literal.\<close>

fun showNat :: "nat \<Rightarrow> string" where
  "showNat n =
     (if n < 10 then [''0123456789'' ! n]
      else showNat (n div 10) @ [''0123456789'' ! (n mod 10)])"

declare showNat.simps [simp del]

section \<open>The update log\<close>

text \<open>
  \<^verbatim>\<open>interface AgentUpdate { agent; status; message; timestamp }\<close>. The timestamp is
  the reading of the clock (in milliseconds) that \<^verbatim>\<open>new Date().toISOString()\<close>
  renders.
\<close>

record AgentUpdate =
  agent :: string
  status :: string
  message :: string
  timestamp :: nat

text \<open>The submitted file: its name, its MIME type, and what \<^verbatim>\<open>file.text()\<close> yields
  (\<open>None\<close> when that promise rejects).\<close>

record File =
  name :: string
  type :: string
  fileText :: "string option"

text \<open>\<^verbatim>\<open>EventSource.readyState\<close>.\<close>

datatype readyState = CONNECTING | OPEN | CLOSED

text \<open>
  The callbacks the page hands to \<^verbatim>\<open>setTimeout\<close>: the 30 second watchdog of
  \<^verbatim>\<open>startRealTimeStream\<close>, the delayed call of \<^verbatim>\<open>simulateAgentUpdates\<close>, and one
  callback per step of the simulated timeline.
\<close>

datatype callback = Watchdog | Simulate | Step string string string

text \<open>
  The state of the component: its \<^verbatim>\<open>useState\<close> cells and \<^verbatim>\<open>useRef\<close> cells under
  their source names, the \<^verbatim>\<open>EventSource\<close> of \<^verbatim>\<open>startRealTimeStream\<close> (\<open>None\<close>
  until one is constructed), the queue of armed timers in firing order, each with
  its due time, and the clock.
\<close>

record page =
  file' :: "File option"
  loading :: bool
  expenseId :: "string option"
  updates :: "AgentUpdate list"
  error :: "string option"
  demoMode :: bool
  demoModeRef :: bool
  hasRealUpdatesRef :: bool
  emittedUpdatesRef :: "string set"
  eventSource :: "readyState option"
  timers :: "(nat \<times> callback) list"
  clock :: nat

definition setDemoModeFlag :: "bool \<Rightarrow> page \<Rightarrow> page" where
  "setDemoModeFlag v s = s\<lparr>demoModeRef := v, demoMode := v\<rparr>"

definition updateKey :: "string \<Rightarrow> string \<Rightarrow> string \<Rightarrow> string" where
  "updateKey a st m = a @ ''|'' @ st @ ''|'' @ m"

definition pushUpdate :: "string \<Rightarrow> string \<Rightarrow> string \<Rightarrow> page \<Rightarrow> page" where
  "pushUpdate a st m s =
     (let key = updateKey a st m in
      if key \<in> emittedUpdatesRef s then s
      else s\<lparr>emittedUpdatesRef := insert key (emittedUpdatesRef s),
             updates := updates s @
               [\<lparr>agent = a, status = st, message = m, timestamp = clock s\<rparr>]\<rparr>)"

text \<open>
  \<^verbatim>\<open>formatCurrency(value)\<close> renders a finite number (or a string that
  \<^verbatim>\<open>parseFloat\<close> reads as one) with \<^verbatim>\<open>toFixed(2)\<close> and anything else as \<open>0.00\<close>.
  The argument is given as the code sees it after that test: \<open>Some r\<close> for a
  finite number whose two-decimal rendering is \<open>r\<close>, \<open>None\<close> otherwise.
\<close>

definition formatCurrency :: "string option \<Rightarrow> string" where
  "formatCurrency v = (case v of Some r \<Rightarrow> r | None \<Rightarrow> ''0.00'')"

text \<open>\<^verbatim>\<open>setTimeout(cb, d)\<close>: the timer is due \<open>d\<close> ms from now and fires after
  every timer that is due no later.\<close>

fun enqueue :: "nat \<times> callback \<Rightarrow> (nat \<times> callback) list \<Rightarrow> (nat \<times> callback) list" where
  "enqueue x [] = [x]"
| "enqueue x (y # ys) = (if fst x < fst y then x # y # ys else y # enqueue x ys)"

definition setTimeout :: "callback \<Rightarrow> nat \<Rightarrow> page \<Rightarrow> page" where
  "setTimeout cb d s = s\<lparr>timers := enqueue (clock s + d, cb) (timers s)\<rparr>"

definition setLoading :: "bool \<Rightarrow> page \<Rightarrow> page" where
  "setLoading v s = s\<lparr>loading := v\<rparr>"

definition close :: "page \<Rightarrow> page" where
  "close s = s\<lparr>eventSource := Some CLOSED\<rparr>"

section \<open>Stream frames\<close>

text \<open>
  What \<^verbatim>\<open>JSON.parse(event.data)\<close> yields, as far as the handler reads it. The
  fields that the backend sends as strings (\<^verbatim>\<open>status\<close>, \<^verbatim>\<open>finalStatus\<close>,
  \<^verbatim>\<open>error\<close>, the summary, merchant, category, reasoning and risk level) are
  strings or absent. A field read through \<open>??\<close> or a template literal is \<open>None\<close>
  when it is null or undefined and otherwise its text; a field that is only
  tested for truthiness is a boolean; \<^verbatim>\<open>findings.extraction\<close> and its siblings
  are \<open>None\<close> when falsy.
\<close>

record extraction =
  x_merchant :: "string option"
  x_total_amount :: "string option"
  x_category :: "string option"

record policy =
  p_compliant :: bool
  p_reasoning :: "string option"

text \<open>
  \<^verbatim>\<open>anomaly.anomalies\<close>: absent, an array (its elements as \<^verbatim>\<open>join\<close> renders them),
  or a value with no \<^verbatim>\<open>join\<close> method, on which the call throws a TypeError.
\<close>

datatype anomalies = NoAnomalies | AnomalyList "string list" | NotAnArray

record anomaly =
  a_anomalies_detected :: bool
  a_anomalies :: anomalies
  a_risk_level :: "string option"

text \<open>
  \<^verbatim>\<open>remediation.recommendations\<close>: \<open>None\<close> when it cannot be mapped over (the
  call throws), else the array; an element is \<open>None\<close> when it is null or
  undefined (reading \<^verbatim>\<open>r.action\<close> throws) and otherwise its \<^verbatim>\<open>action\<close>
  as \<^verbatim>\<open>join\<close> renders it.
\<close>

record remediation =
  r_needs_remediation :: bool
  r_recommendations :: "string option list option"

record findings =
  f_extraction :: "extraction option"
  f_policy :: "policy option"
  f_anomaly :: "anomaly option"
  f_remediation :: "remediation option"
  f_synthesis_summary :: "string option"

text \<open>
  The parsed payload: \<^verbatim>\<open>data.status\<close> (the empty string when absent),
  \<^verbatim>\<open>data.error\<close> and \<^verbatim>\<open>data.finalStatus\<close> (\<open>None\<close> when falsy, that is, absent
  or empty) and \<^verbatim>\<open>data.findings\<close> (all of its fields \<open>None\<close> when it is
  absent).
\<close>

record data =
  d_status :: string
  d_error :: "string option"
  d_finalStatus :: "string option"
  d_findings :: findings

text \<open>
  A frame of the stream: text that \<^verbatim>\<open>JSON.parse\<close> rejects, the JSON value
  \<^verbatim>\<open>null\<close> (reading \<^verbatim>\<open>data.status\<close> throws), or a payload.
\<close>

datatype frame = Unparsable | JsonNull | Json data

section \<open>The handlers of \<^verbatim>\<open>startRealTimeStream\<close>\<close>

definition markRealUpdate :: "page \<Rightarrow> page" where
  "markRealUpdate s = setDemoModeFlag False (s\<lparr>hasRealUpdatesRef := True\<rparr>)"

definition triggerDemoMode :: "string \<Rightarrow> page \<Rightarrow> page" where
  "triggerDemoMode m s =
     (if hasRealUpdatesRef s \<or> demoModeRef s then s
      else setTimeout Simulate 500
             (pushUpdate ''System'' ''processing'' m (setDemoModeFlag True s)))"

definition finalSummary :: "string \<Rightarrow> string" where
  "finalSummary finalStatus =
     (if finalStatus = ''APPROVED'' then party_popper @ '' All checks passed.''
      else if finalStatus = ''REJECTED'' then cross_mark @ '' Policy violation detected.''
      else if finalStatus = ''NEEDS_REVIEW'' then warning_sign @ '' Needs manual review.''
      else ''Status: '' @ finalStatus)"

definition handleFinalStatus :: "string \<Rightarrow> data \<Rightarrow> page \<Rightarrow> page" where
  "handleFinalStatus finalStatus doc s =
     (let s1 = markRealUpdate s;
          synthesis_summary = f_synthesis_summary (d_findings doc);
          summary = (case synthesis_summary of
                       Some t \<Rightarrow> t
                     | None \<Rightarrow> finalSummary finalStatus);
          shown = (case synthesis_summary of
                     Some t \<Rightarrow> if t \<noteq> [] then party_popper @ '' '' @ t else summary
                   | None \<Rightarrow> summary)
      in close (setLoading False (pushUpdate ''Synthesis Agent'' ''complete'' shown s1)))"

definition extractedMessage :: "extraction \<Rightarrow> string" where
  "extractedMessage e =
     check_mark @ '' Vision analysis complete: Merchant='' @ dquote @
       (case x_merchant e of Some m \<Rightarrow> m | None \<Rightarrow> ''Unknown'') @ dquote @
     '', Amount=$'' @ formatCurrency (x_total_amount e) @
     '', Category='' @ dquote @
       (case x_category e of Some c \<Rightarrow> c | None \<Rightarrow> ''General'') @ dquote"

definition policyCheckedMessage :: "policy \<Rightarrow> string" where
  "policyCheckedMessage p =
     (let compliant = p_compliant p;
          reasoning = (case p_reasoning p of
                         Some r \<Rightarrow> r
                       | None \<Rightarrow> if compliant then ''Compliant with policy.''
                                 else ''Violation detected.'')
      in (if compliant then check_mark else cross_mark) @ '' '' @ reasoning)"

text \<open>The message of \<open>ANOMALY_CHECKED\<close>; \<open>None\<close> when building it throws.\<close>

definition anomalyMessage :: "anomaly \<Rightarrow> string option" where
  "anomalyMessage a =
     (if a_anomalies_detected a then
        (case a_anomalies a of
           NotAnArray \<Rightarrow> None
         | NoAnomalies \<Rightarrow>
             Some (warning_sign @ '' Potential anomalies detected. (risk: '' @
                   (case a_risk_level a of Some r \<Rightarrow> r | None \<Rightarrow> ''unknown'') @ '')'')
         | AnomalyList xs \<Rightarrow>
             Some (warning_sign @ '' '' @
                   (if join ''; '' xs = [] then ''Potential anomalies detected.''
                    else join ''; '' xs) @
                   '' (risk: '' @
                   (case a_risk_level a of Some r \<Rightarrow> r | None \<Rightarrow> ''unknown'') @ '')''))
      else Some (check_mark @ '' No anomalies detected.''))"

text \<open>The message of \<open>REMEDIATION_COMPLETE\<close>; \<open>None\<close> when building it throws.
  \<^verbatim>\<open>map\<close> reads the action of every element before \<^verbatim>\<open>slice(0, 2)\<close> keeps two.\<close>

definition remediationMessage :: "remediation \<Rightarrow> string option" where
  "remediationMessage r =
     (if r_needs_remediation r then
        (case r_recommendations r of
           None \<Rightarrow> None
         | Some items \<Rightarrow>
             if None \<in> set items then None
             else Some (light_bulb @ '' Recommendations: '' @
                        join ''; '' (take 2 (map the items))))
      else Some (check_mark @ '' No remediation needed.''))"

text \<open>The \<^verbatim>\<open>switch (status)\<close> of \<^verbatim>\<open>onmessage\<close>. An exception thrown while a
  message is built is caught by the handler's \<^verbatim>\<open>catch\<close>, which only logs: what
  was done before it stays done.\<close>

definition stage :: "data \<Rightarrow> page \<Rightarrow> page" where
  "stage d s =
     (let status = d_status d; findings = d_findings d in
      if status = ''INGESTED'' then
        pushUpdate ''Orchestrator'' ''processing''
          ''Receipt ingested. Agents spinning up...'' (markRealUpdate s)
      else if status = ''EXTRACTED'' then
        (case f_extraction findings of
           Some e \<Rightarrow>
             pushUpdate ''Extraction Agent'' ''complete'' (extractedMessage e)
               (markRealUpdate s)
         | None \<Rightarrow> s)
      else if status = ''EXTRACTION_FAILED'' then
        close (setLoading False
          (pushUpdate ''Extraction Agent'' ''error''
             (cross_mark @
              '' Extraction failed. Please verify the receipt image quality and retry.'')
             (markRealUpdate s)))
      else if status = ''POLICY_CHECKED'' then
        (case f_policy findings of
           Some p \<Rightarrow>
             pushUpdate ''Policy Agent'' ''complete'' (policyCheckedMessage p)
               (markRealUpdate s)
         | None \<Rightarrow> s)
      else if status = ''POLICY_CHECK_FAILED'' then
        close (setLoading False
          (pushUpdate ''Policy Agent'' ''error''
             (cross_mark @ '' Policy evaluation failed. Please try again.'')
             (markRealUpdate s)))
      else if status = ''ANOMALY_CHECKED'' then
        (case f_anomaly findings of
           Some a \<Rightarrow>
             (case anomalyMessage a of
                Some m \<Rightarrow> pushUpdate ''Anomaly Agent'' ''complete'' m (markRealUpdate s)
              | None \<Rightarrow> markRealUpdate s)
         | None \<Rightarrow> s)
      else if status = ''ANOMALY_CHECK_FAILED'' then
        pushUpdate ''Anomaly Agent'' ''error''
          (cross_mark @ '' Anomaly detection failed.'') (markRealUpdate s)
      else if status = ''REMEDIATION_COMPLETE'' then
        (case f_remediation findings of
           Some r \<Rightarrow>
             (case remediationMessage r of
                Some m \<Rightarrow> pushUpdate ''Remediation Agent'' ''complete'' m (markRealUpdate s)
              | None \<Rightarrow> markRealUpdate s)
         | None \<Rightarrow> s)
      else if status \<in> set [''APPROVED'', ''REJECTED'', ''NEEDS_REVIEW'', ''FAILED''] then
        handleFinalStatus status d s
      else s)"

definition onmessage :: "frame \<Rightarrow> page \<Rightarrow> page" where
  "onmessage fr s =
     (case fr of
        Unparsable \<Rightarrow> s
      | JsonNull \<Rightarrow> s
      | Json d \<Rightarrow>
          if d_status d = ''TIMEOUT'' then
            close (if \<not> hasRealUpdatesRef s then
                     triggerDemoMode
                       (stopwatch @
                        '' Agents processing... Showing preview based on receipt analysis.'') s
                   else s)
          else
            (case d_error d of
               Some e \<Rightarrow>
                 close (setLoading False
                   (pushUpdate ''System'' ''error'' (cross_mark @ '' '' @ e) s))
             | None \<Rightarrow>
                 if d_status d = ''DONE'' \<and> d_finalStatus d \<noteq> None then
                   handleFinalStatus (the (d_finalStatus d)) d s
                 else stage d s))"

definition onerror :: "page \<Rightarrow> page" where
  "onerror s =
     (if hasRealUpdatesRef s then close s
      else triggerDemoMode
             (light_bulb @
              '' Worker Pools queued. Showing intelligent simulation based on receipt content...'')
             (close s))"

text \<open>The callback of the 30 second timer.\<close>

definition watchdog :: "page \<Rightarrow> page" where
  "watchdog s =
     (if eventSource s \<noteq> Some CLOSED then
        close (if \<not> hasRealUpdatesRef s then
                 triggerDemoMode
                   (stopwatch @
                    '' Agents taking longer than expected. Showing preview while we wait.'') s
               else s)
      else s)"

definition startRealTimeStream :: "string \<Rightarrow> page \<Rightarrow> page" where
  "startRealTimeStream expId s =
     setTimeout Watchdog 30000 (s\<lparr>eventSource := Some CONNECTING\<rparr>)"

section \<open>The simulated timeline\<close>

text \<open>
  The amount pattern \<^verbatim>\<open>/Total[:\s]+\$?([\d,]+\.?\d*)/i\<close>. The classes
  \<^verbatim>\<open>[:\s]\<close>, \<^verbatim>\<open>\$\<close> and \<^verbatim>\<open>[\d,]\<close> are disjoint and everything after the group's
  first character may match the empty string, so the greedy match is the only
  one at a given start: no backtracking changes the group. Under the flag \<open>i\<close>
  (without the flag \<open>u\<close>) a character of the text matches a letter of the pattern
  when their upper-case forms agree, and a character beyond ASCII is never
  taken for an ASCII one: the letters of \<open>Total\<close> match in either case and
  nothing else does.
\<close>

definition isDigit :: "char \<Rightarrow> bool" where
  "isDigit c = (c \<in> set ''0123456789'')"

definition isDigitOrComma :: "char \<Rightarrow> bool" where
  "isDigitOrComma c = (isDigit c \<or> c = CHR '','')"

text \<open>The white space of \<^verbatim>\<open>\s\<close> beyond ASCII, in UTF-8: U+1680, U+2000 to U+200A,
  U+2028, U+2029, U+202F, U+205F, U+3000 and U+FEFF (U+00A0 takes two bytes and is
  tested apart).\<close>

definition wideSpaces :: "string list" where
  "wideSpaces =
     [[CHR 0xE1, CHR 0x9A, CHR 0x80],
      [CHR 0xE2, CHR 0x80, CHR 0x80], [CHR 0xE2, CHR 0x80, CHR 0x81],
      [CHR 0xE2, CHR 0x80, CHR 0x82], [CHR 0xE2, CHR 0x80, CHR 0x83],
      [CHR 0xE2, CHR 0x80, CHR 0x84], [CHR 0xE2, CHR 0x80, CHR 0x85],
      [CHR 0xE2, CHR 0x80, CHR 0x86], [CHR 0xE2, CHR 0x80, CHR 0x87],
      [CHR 0xE2, CHR 0x80, CHR 0x88], [CHR 0xE2, CHR 0x80, CHR 0x89],
      [CHR 0xE2, CHR 0x80, CHR 0x8A],
      [CHR 0xE2, CHR 0x80, CHR 0xA8], [CHR 0xE2, CHR 0x80, CHR 0xA9],
      [CHR 0xE2, CHR 0x80, CHR 0xAF], [CHR 0xE2, CHR 0x81, CHR 0x9F],
      [CHR 0xE3, CHR 0x80, CHR 0x80], [CHR 0xEF, CHR 0xBB, CHR 0xBF]]"

text \<open>The number of bytes of the \<^verbatim>\<open>[:\s]\<close> character that a text starts with; 0
  when it starts with none.\<close>

definition sepLen :: "string \<Rightarrow> nat" where
  "sepLen s =
     (case s of
        [] \<Rightarrow> 0
      | c # _ \<Rightarrow>
          if c \<in> set [CHR '':'', CHR '' '', CHR 0x09, CHR 0x0A, CHR 0x0B, CHR 0x0C, CHR 0x0D]
          then 1
          else if take 2 s = [CHR 0xC2, CHR 0xA0] then 2
          else if take 3 s \<in> set wideSpaces then 3
          else 0)"

function dropSeps :: "string \<Rightarrow> string" where
  "dropSeps s = (if sepLen s = 0 then s else dropSeps (drop (sepLen s) s))"
  by pat_completeness auto
termination
proof (relation "measure length")
  show "wf (measure length)" by simp
next
  fix s :: string
  assume "sepLen s \<noteq> 0"
  then have "s \<noteq> []" by (auto simp: sepLen_def)
  with \<open>sepLen s \<noteq> 0\<close> show "(drop (sepLen s) s, s) \<in> measure length" by simp
qed

declare dropSeps.simps [simp del]

text \<open>The group of a match that starts at the head of the text, if there is one.\<close>

definition matchTotalAt :: "string \<Rightarrow> string option" where
  "matchTotalAt s =
     (if map lowerChar (take 5 s) = ''total'' \<and> sepLen (drop 5 s) \<noteq> 0 then
        (let r1 = dropSeps (drop 5 s);
             r2 = (if prefix ''$'' r1 then tl r1 else r1);
             r3 = dropWhile isDigitOrComma r2
         in if takeWhile isDigitOrComma r2 = [] then None
            else Some (takeWhile isDigitOrComma r2 @
                       (if prefix ''.'' r3 then ''.'' @ takeWhile isDigit (tl r3) else [])))
      else None)"

text \<open>\<^verbatim>\<open>fileContent.match(...)\<close>: the group of the leftmost match.\<close>

fun totalMatch :: "string \<Rightarrow> string option" where
  "totalMatch [] = None"
| "totalMatch (c # cs) =
     (case matchTotalAt (c # cs) of
        Some g \<Rightarrow> Some g
      | None \<Rightarrow> totalMatch cs)"

text \<open>
  \<^verbatim>\<open>parseFloat(amount)\<close>. An amount is made of digits, commas and at most one
  point, so only that part of the grammar is modelled: the digits up to the
  first other character, and the digits after a point that follows them.
  \<open>None\<close> is NaN, \<open>Some (m, k)\<close> the decimal value \<open>m / 10^k\<close>, of which
  \<^verbatim>\<open>parseFloat\<close> returns the nearest double (ties to the even mantissa).
\<close>

definition digitValue :: "char \<Rightarrow> nat" where
  "digitValue c = length (takeWhile (\<lambda>d. d \<noteq> c) ''0123456789'')"

definition digitsValue :: "string \<Rightarrow> nat" where
  "digitsValue ds = fold (\<lambda>c n. 10 * n + digitValue c) ds 0"

definition parseFloat :: "string \<Rightarrow> (nat \<times> nat) option" where
  "parseFloat a =
     (let ip = takeWhile isDigit a;
          rest = dropWhile isDigit a;
          fp = (if prefix ''.'' rest then takeWhile isDigit (tl rest) else [])
      in if ip = [] \<and> fp = [] then None
         else Some (digitsValue (ip @ fp), length fp))"

text \<open>
  \<^verbatim>\<open>parseFloat(amount) > 50\<close> and \<^verbatim>\<open>parseFloat(amount) < 30\<close>, on the double. 50 and
  30 are doubles with even mantissas; the next double above 50 is \<open>50 + 2^-47\<close>
  and the next below 30 is \<open>30 - 2^-48\<close>. So the nearest double is greater than
  50 exactly when the decimal value is greater than \<open>50 + 2^-48\<close>, and less
  than 30 exactly when the decimal value is less than \<open>30 - 2^-49\<close>. NaN
  compares false.
\<close>

definition overFifty :: "(nat \<times> nat) option \<Rightarrow> bool" where
  "overFifty x =
     (case x of None \<Rightarrow> False | Some (m, k) \<Rightarrow> (50 * 2 ^ 48 + 1) * 10 ^ k < m * 2 ^ 48)"

definition underThirty :: "(nat \<times> nat) option \<Rightarrow> bool" where
  "underThirty x =
     (case x of None \<Rightarrow> False | Some (m, k) \<Rightarrow> m * 2 ^ 49 < (30 * 2 ^ 49 - 1) * 10 ^ k)"

text \<open>The locals of \<^verbatim>\<open>simulateAgentUpdates\<close>, each as a function of the file.\<close>

definition fileName :: "File option \<Rightarrow> string" where
  "fileName f = (case f of None \<Rightarrow> [] | Some x \<Rightarrow> toLowerCase (name x))"

text \<open>The extensions of \<^verbatim>\<open>/\.(jpg|jpeg|png|gif|webp)$/\<close>; the pattern is tried on
  the lowered name and \<open>$\<close> is its end.\<close>

definition imageExtensions :: "string list" where
  "imageExtensions = [''.jpg'', ''.jpeg'', ''.png'', ''.gif'', ''.webp'']"

definition isImage :: "File option \<Rightarrow> bool" where
  "isImage f =
     ((case f of None \<Rightarrow> False | Some x \<Rightarrow> prefix ''image/'' (type x)) \<or>
      (\<exists>ext \<in> set imageExtensions. suffix ext (fileName f)))"

definition fileContent :: "File option \<Rightarrow> string" where
  "fileContent f =
     (case f of
        None \<Rightarrow> []
      | Some x \<Rightarrow>
          if \<not> isImage f then (case fileText x of Some t \<Rightarrow> t | None \<Rightarrow> []) else [])"

definition isStarbucks :: "File option \<Rightarrow> bool" where
  "isStarbucks f =
     (includes_str (fileName f) ''starbucks'' \<or> includes_str (fileContent f) ''STARBUCKS'' \<or>
      includes_str (fileContent f) ''Starbucks'')"

definition isUber :: "File option \<Rightarrow> bool" where
  "isUber f =
     (includes_str (fileName f) ''uber'' \<or> includes_str (fileName f) ''taxi'' \<or>
      includes_str (fileContent f) ''UBER'' \<or> includes_str (fileContent f) ''Uber'')"

definition isBar :: "File option \<Rightarrow> bool" where
  "isBar f =
     (includes_str (fileName f) ''bar'' \<or> includes_str (fileName f) ''alcohol'' \<or>
      includes_str (fileContent f) ''BAR'' \<or> includes_str (fileContent f) ''WINE'' \<or>
      includes_str (fileContent f) ''BEER'' \<or> includes_str (fileContent f) ''VODKA'' \<or>
      includes_str (fileContent f) ''Alcohol'')"

definition isStaples :: "File option \<Rightarrow> bool" where
  "isStaples f =
     (includes_str (fileName f) ''staples'' \<or> includes_str (fileName f) ''office'' \<or>
      includes_str (fileContent f) ''STAPLES'' \<or> includes_str (fileContent f) ''Staples'')"

definition amount :: "File option \<Rightarrow> string" where
  "amount f =
     (case totalMatch (fileContent f) of
        Some g \<Rightarrow> remove1 (CHR '','') g
      | None \<Rightarrow>
          if isImage f then
            (if isStarbucks f then ''25.55''
             else if isUber f then ''39.53''
             else if isBar f then ''93.74''
             else if isStaples f then ''102.84''
             else ''45.00'')
          else ''0.00'')"

text \<open>\<open>(merchant, category, policyResult, policyMessage)\<close>, as the chain of
  \<^verbatim>\<open>if (isStarbucks) ... else if (isUber) ...\<close> assigns them.\<close>

definition classification :: "File option \<Rightarrow> string \<times> string \<times> string \<times> string" where
  "classification f =
     (if isStarbucks f then
        (if overFifty (parseFloat (amount f)) then
           (''Starbucks'', ''Meals & Refreshments'', ''flagged'',
            warning_sign @
            '' Amount exceeds meal guideline ($50 limit). Requires manager approval.'')
         else if underThirty (parseFloat (amount f)) then
           (''Starbucks'', ''Meals & Refreshments'', ''approved'',
            check_mark @
            '' Within team meal limit ($50). Business purpose documented. Citations: Policy '' @
            section_sign @ ''2.2'')
         else
           (''Starbucks'', ''Meals & Refreshments'', ''review'',
            warning_sign @
            '' Borderline amount. Recommend adding attendee list for approval.''))
      else if isUber f then
        (''Uber'', ''Transportation'', ''approved'',
         check_mark @ '' Within taxi limit ($75). Business purpose valid. Citations: Policy '' @
         section_sign @ ''3.1'')
      else if isBar f then
        (''Bar/Restaurant'', ''Meals'', ''rejected'',
         cross_mark @
         '' **POLICY VIOLATION** - Alcoholic beverages detected. Per Policy '' @ section_sign @
         ''6.1: '' @ dquote @ ''Alcohol NOT reimbursable under any circumstances'' @ dquote)
      else if isStaples f then
        (''Staples'', ''Office Supplies'', ''approved'',
         check_mark @
         '' Office supplies approved. Within $500 threshold. Citations: Policy '' @
         section_sign @ ''5.1'')
      else
        (''Unknown'', ''General'', ''approved'', check_mark @ '' Compliant with company policy.''))"

definition merchant :: "File option \<Rightarrow> string" where
  "merchant f = fst (classification f)"

definition category :: "File option \<Rightarrow> string" where
  "category f = fst (snd (classification f))"

definition policyResult :: "File option \<Rightarrow> string" where
  "policyResult f = fst (snd (snd (classification f)))"

definition policyMessage :: "File option \<Rightarrow> string" where
  "policyMessage f = snd (snd (snd (classification f)))"

text \<open>
  The array \<^verbatim>\<open>steps\<close>: agent, status, message and delay of each entry. \<open>j\<close> is
  the value of \<^verbatim>\<open>Math.floor(Math.random() * 5)\<close>.
\<close>

definition steps :: "File option \<Rightarrow> nat \<Rightarrow> (string \<times> string \<times> string \<times> nat) list" where
  "steps f j =
     [(''Extraction Agent'', ''processing'',
       (if isImage f
        then magnifier_left @ '' Using Gemini 2.5 Flash Preview to analyze receipt image...''
        else magnifier_left @ '' Processing receipt text with Gemini 2.5 Flash Preview...''),
       1000),
      (''Extraction Agent'', ''complete'',
       (if isImage f
        then check_mark @ '' Vision analysis complete: Merchant='' @ dquote @ merchant f @
             dquote @ '', Amount=$'' @ amount f @ '', Category='' @ dquote @ category f @ dquote
        else check_mark @ '' Extracted: Merchant='' @ dquote @ merchant f @
             dquote @ '', Amount=$'' @ amount f @ '', Category='' @ dquote @ category f @ dquote),
       3500),
      (''Policy Agent'', ''processing'',
       clipboard @ '' Checking compliance using ADK + Gemini 2.5 Flash-Lite Preview...'', 4500),
      (''Policy Agent'', ''complete'', policyMessage f, 7000),
      (''Anomaly Agent'', ''processing'',
       magnifier_right @ '' Scanning for duplicates, fraud patterns, suspicious amounts...'',
       7500),
      (''Anomaly Agent'', ''complete'',
       (if isBar f
        then warning_sign @ '' High-risk category detected (alcohol). Flagged for review.''
        else check_mark @ '' No anomalies detected. Transaction appears legitimate.''),
       9000),
      (''Remediation Agent'', ''processing'',
       tools @ '' Checking if any remediation needed...'', 9500),
      (''Remediation Agent'', ''complete'',
       (if policyResult f = ''rejected''
        then light_bulb @
             '' Recommendation: Separate food items ($30) from alcohol ($42). Resubmit food portion only.''
        else if policyResult f = ''review''
        then light_bulb @
             '' Recommendation: Add meeting attendees list and agenda to support approval.''
        else check_mark @ '' No issues found. Approved for reimbursement.''),
       10500),
      (''Synthesis Agent'', ''processing'',
       bar_chart @ '' Aggregating findings and generating final verdict...'', 11000),
      (''Synthesis Agent'', ''complete'',
       (if policyResult f = ''rejected''
        then cross_mark @ '' **REJECTED** - Policy violation detected. Amount: $'' @ amount f @
             ''. Requires remediation.''
        else if policyResult f = ''review''
        then warning_sign @ '' **NEEDS REVIEW** - Additional documentation required. Amount: $'' @
             amount f @ ''.''
        else party_popper @ '' **APPROVED** - All checks passed. Amount: $'' @ amount f @
             ''. Confidence: '' @ showNat (95 + j) @ ''%''),
       13000)]"

text \<open>
  \<^verbatim>\<open>simulateAgentUpdates\<close> arms one timer per step; the wait for \<^verbatim>\<open>file.text()\<close>
  is taken to end at once, so the delays count from the call.
\<close>

definition simulateAgentUpdates :: "nat \<Rightarrow> page \<Rightarrow> page" where
  "simulateAgentUpdates j s =
     fold (\<lambda>(a, st, m, d). setTimeout (Step a st m) d) (steps (file' s) j) s"

text \<open>The timer callback of one step.\<close>

definition stepCallback :: "string \<Rightarrow> string \<Rightarrow> string \<Rightarrow> page \<Rightarrow> page" where
  "stepCallback a st m s =
     (let s1 = pushUpdate a st m s in
      if a = ''Synthesis Agent'' \<and> st = ''complete'' then setLoading False s1 else s1)"

section \<open>Submitting\<close>

text \<open>What a \<^verbatim>\<open>catch\<close> receives: an \<^verbatim>\<open>Error\<close> with its message, or another value.\<close>

datatype thrown = ErrorObject string | OtherValue

text \<open>
  What reading the response body yields: \<^verbatim>\<open>response.json()\<close> rejects; or the
  body is null or its \<^verbatim>\<open>expenseId\<close> is null or undefined (a TypeError with the
  given message, the state cell left empty); or its \<^verbatim>\<open>expenseId\<close> is another value
  that is no string, given as its text, which \<^verbatim>\<open>setExpenseId\<close> stores before the
  call of \<^verbatim>\<open>substring\<close> throws a TypeError with the given message; or it is a
  string.
\<close>

datatype body =
  JsonRejected thrown | NoExpenseId string | OtherExpenseId string string | ExpenseId string

text \<open>The outcome of the upload request: \<^verbatim>\<open>fetch\<close> rejects (a transport error),
  or answers with \<^verbatim>\<open>response.ok\<close>, \<^verbatim>\<open>response.statusText\<close> and a body.\<close>

datatype upload = FetchRejected thrown | Response bool string body

text \<open>The \<^verbatim>\<open>catch\<close> block of \<^verbatim>\<open>handleSubmit\<close>.\<close>

definition uploadFailed :: "thrown \<Rightarrow> page \<Rightarrow> page" where
  "uploadFailed e s =
     setLoading False
       (pushUpdate ''System'' ''error''
          (cross_mark @ '' '' @ (case e of ErrorObject m \<Rightarrow> m | OtherValue \<Rightarrow> ''Unknown error''))
          (s\<lparr>error := Some (case e of ErrorObject m \<Rightarrow> m | OtherValue \<Rightarrow> ''Upload failed'')\<rparr>))"

definition handleSubmit :: "upload \<Rightarrow> page \<Rightarrow> page" where
  "handleSubmit up s =
     (case file' s of
        None \<Rightarrow> s
      | Some f \<Rightarrow>
          (let s1 = (setDemoModeFlag False
                       (s\<lparr>loading := True, updates := [], error := None, expenseId := None\<rparr>))
                    \<lparr>hasRealUpdatesRef := False, emittedUpdatesRef := {}\<rparr>;
               s2 = pushUpdate ''System'' ''processing''
                      ''Uploading receipt to Cloud Storage...'' s1
           in case up of
                FetchRejected e \<Rightarrow> uploadFailed e s2
              | Response ok statusText b \<Rightarrow>
                  if \<not> ok then uploadFailed (ErrorObject (''Upload failed: '' @ statusText)) s2
                  else
                    (case b of
                       JsonRejected e \<Rightarrow> uploadFailed e s2
                     | NoExpenseId m \<Rightarrow> uploadFailed (ErrorObject m) s2
                     | OtherExpenseId v m \<Rightarrow>
                         uploadFailed (ErrorObject m) (s2\<lparr>expenseId := Some v\<rparr>)
                     | ExpenseId eid \<Rightarrow>
                         startRealTimeStream eid
                           (pushUpdate ''Orchestrator'' ''complete''
                              (check_mark @ '' Receipt uploaded! Expense ID: '' @
                               substring_to 8 eid @ ''...'')
                              (s2\<lparr>expenseId := Some eid\<rparr>)))))"

text \<open>The component as mounted, and the file input's \<^verbatim>\<open>onChange\<close>.\<close>

definition mounted :: page where
  "mounted =
     \<lparr>file' = None, loading = False, expenseId = None, updates = [], error = None,
      demoMode = False, demoModeRef = False, hasRealUpdatesRef = False,
      emittedUpdatesRef = {}, eventSource = None, timers = [], clock = 0\<rparr>"

definition chooseFile :: "File option \<Rightarrow> page \<Rightarrow> page" where
  "chooseFile f s = s\<lparr>file' := f, error := None\<rparr>"

text \<open>A session: the component is mounted, a file is chosen and submitted.\<close>

definition session :: "File \<Rightarrow> upload \<Rightarrow> page" where
  "session f up = handleSubmit up (chooseFile (Some f) mounted)"

section \<open>The event loop\<close>

text \<open>
  What happens to the page after the submission: the stream delivers a frame,
  the stream reports an error, the timer at the head of the queue fires (the
  number is what \<^verbatim>\<open>Math.floor(Math.random() * 5)\<close> yields, should the callback ask),
  or time passes. An \<^verbatim>\<open>EventSource\<close> dispatches \<^verbatim>\<open>message\<close> and \<^verbatim>\<open>error\<close> events
  only while its \<^verbatim>\<open>readyState\<close> is not \<^verbatim>\<open>CLOSED\<close>; time passes at most up to the
  next timer that is due.
\<close>

datatype event = MessageEvent frame | ErrorEvent | TimerFires nat | Elapse nat

fun runCallback :: "nat \<Rightarrow> callback \<Rightarrow> page \<Rightarrow> page" where
  "runCallback j Watchdog s = watchdog s"
| "runCallback j Simulate s = simulateAgentUpdates j s"
| "runCallback j (Step a st m) s = stepCallback a st m s"

definition streaming :: "page \<Rightarrow> bool" where
  "streaming s = (eventSource s = Some CONNECTING \<or> eventSource s = Some OPEN)"

fun dispatch :: "event \<Rightarrow> page \<Rightarrow> page" where
  "dispatch (MessageEvent fr) s = (if streaming s then onmessage fr s else s)"
| "dispatch ErrorEvent s = (if streaming s then onerror s else s)"
| "dispatch (TimerFires j) s =
     (case timers s of
        [] \<Rightarrow> s
      | (due, cb) # rest \<Rightarrow> runCallback j cb (s\<lparr>timers := rest, clock := max (clock s) due\<rparr>))"
| "dispatch (Elapse d) s =
     (case timers s of
        [] \<Rightarrow> s\<lparr>clock := clock s + d\<rparr>
      | (due, cb) # rest \<Rightarrow> s\<lparr>clock := max (clock s) (min (clock s + d) due)\<rparr>)"

fun run :: "event list \<Rightarrow> page \<Rightarrow> page" where
  "run [] s = s"
| "run (e # es) s = run es (dispatch e s)"

section \<open>Observations on a session\<close>

text \<open>The identity of a notification for deduplication.\<close>

definition triple :: "AgentUpdate \<Rightarrow> string \<times> string \<times> string" where
  "triple u = (agent u, status u, message u)"

text \<open>
  A terminal entry of the log: a verdict of the Synthesis Agent, or the error
  notification of one of the paths that end the session (an upload failure or an
  explicit error of the backend, a failed extraction, a failed policy check).
\<close>

definition terminalEntry :: "AgentUpdate \<Rightarrow> bool" where
  "terminalEntry u =
     ((agent u = ''Synthesis Agent'' \<and> status u = ''complete'') \<or>
      (status u = ''error'' \<and>
       agent u \<in> set [''System'', ''Extraction Agent'', ''Policy Agent'']))"

definition hasTerminal :: "page \<Rightarrow> bool" where
  "hasTerminal s = list_ex terminalEntry (updates s)"

text \<open>How often the fallback generator is started along a run: the number of
  events that fire a \<open>Simulate\<close> timer, that is, that call
  \<^verbatim>\<open>simulateAgentUpdates\<close>.\<close>

fun startsSimulation :: "event \<Rightarrow> page \<Rightarrow> bool" where
  "startsSimulation (TimerFires j) s =
     (case timers s of [] \<Rightarrow> False | (due, cb) # rest \<Rightarrow> cb = Simulate)"
| "startsSimulation e s = False"

fun demoStarts :: "event list \<Rightarrow> page \<Rightarrow> nat" where
  "demoStarts [] s = 0"
| "demoStarts (e # es) s =
     (if startsSimulation e s then 1 else 0) + demoStarts es (dispatch e s)"

text \<open>A run of appends on a log that \<^verbatim>\<open>handleSubmit\<close> has just reset; each append
  comes with the reading of the clock at its time.\<close>

fun appends :: "(nat \<times> string \<times> string \<times> string) list \<Rightarrow> page \<Rightarrow> page" where
  "appends [] s = s"
| "appends ((t, a, st, m) # ops) s = appends ops (pushUpdate a st m (s\<lparr>clock := t\<rparr>))"

text \<open>An event of the stream, as opposed to a timer or the passing of time.\<close>

definition isFrame :: "event \<Rightarrow> bool" where
  "isFrame e = (case e of MessageEvent fr \<Rightarrow> True | _ \<Rightarrow> False)"

text \<open>Firing every armed timer. A watchdog arms at most one \<open>Simulate\<close> timer and
  that one ten steps, so the weight of the queue bounds the number of firings.\<close>

fun callbackWeight :: "callback \<Rightarrow> nat" where
  "callbackWeight Watchdog = 13"
| "callbackWeight Simulate = 11"
| "callbackWeight (Step a st m) = 1"

definition timerWeight :: "page \<Rightarrow> nat" where
  "timerWeight s = sum_list (map (\<lambda>t. callbackWeight (snd t)) (timers s))"

definition drain :: "nat \<Rightarrow> page \<Rightarrow> page" where
  "drain j s = run (replicate (timerWeight s) (TimerFires j)) s"

text \<open>Sample inputs: a text receipt, a successful upload, and stage frames
  without findings.\<close>

definition receipt :: File where
  "receipt = \<lparr>name = ''receipt.txt'', type = ''text/plain'',
               fileText = Some ''Total: $42.10 WINE''\<rparr>"

definition uploaded :: upload where
  "uploaded = Response True ''OK'' (ExpenseId ''a1b2c3d4e5f6'')"

definition noFindings :: findings where
  "noFindings = \<lparr>f_extraction = None, f_policy = None, f_anomaly = None,
                  f_remediation = None, f_synthesis_summary = None\<rparr>"

definition stagePayload :: "string \<Rightarrow> data" where
  "stagePayload st =
     \<lparr>d_status = st, d_error = None, d_finalStatus = None, d_findings = noFindings\<rparr>"

definition stageFrame :: "string \<Rightarrow> frame" where
  "stageFrame st = Json (stagePayload st)"

text \<open>Two more files: a text file that matches no rule, and a text receipt of a
  coffee shop that lists wine.\<close>

definition memo :: File where
  "memo = \<lparr>name = ''notes.txt'', type = ''text/plain'', fileText = Some ''hello''\<rparr>"

definition coffeeAndWine :: File where
  "coffeeAndWine = \<lparr>name = ''receipt.txt'', type = ''text/plain'',
                     fileText = Some ''STARBUCKS Total: $42.10 WINE''\<rparr>"

text \<open>A photograph whose text would hold a total, a photograph whose name spells
  the coffee shop with the Kelvin sign, and a text file with its total in the
  middle of a line.\<close>

definition photo :: File where
  "photo = \<lparr>name = ''IMG_2041.JPG'', type = [], fileText = Some ''Total: $99.00''\<rparr>"

definition kelvinPhoto :: File where
  "kelvinPhoto = \<lparr>name = ''STARBUC'' @ kelvin_sign @ ''S.png'', type = ''image/png'',
                   fileText = None\<rparr>"

definition lunch :: File where
  "lunch = \<lparr>name = ''lunch.txt'', type = ''text/plain'',
             fileText = Some ''Lunch for two. TOTAL: $1,234.50 paid''\<rparr>"

text \<open>A frame with the status of a stage, no findings, and an \<^verbatim>\<open>error\<close> field.\<close>

definition stageWithError :: data where
  "stageWithError =
     \<lparr>d_status = ''EXTRACTED'', d_error = Some ''boom'', d_finalStatus = None,
      d_findings = noFindings\<rparr>"

text \<open>Of an entry of \<^verbatim>\<open>steps\<close>: its agent and status, the triple and the
  callback of its notification, the key of the triple, its delay, and the timer
  that is armed for it and the notification that the timer appends, when the
  generator was started at \<open>t0\<close>.\<close>

definition stepKind :: "string \<times> string \<times> string \<times> nat \<Rightarrow> string \<times> string" where
  "stepKind x = (case x of (a, st, m, d) \<Rightarrow> (a, st))"

definition stepTriple :: "string \<times> string \<times> string \<times> nat \<Rightarrow> string \<times> string \<times> string" where
  "stepTriple x = (case x of (a, st, m, d) \<Rightarrow> (a, st, m))"

definition stepArmed :: "string \<times> string \<times> string \<times> nat \<Rightarrow> callback" where
  "stepArmed x = (case x of (a, st, m, d) \<Rightarrow> Step a st m)"

definition stepKey :: "string \<times> string \<times> string \<times> nat \<Rightarrow> string" where
  "stepKey x = (case x of (a, st, m, d) \<Rightarrow> updateKey a st m)"

definition stepDelay :: "string \<times> string \<times> string \<times> nat \<Rightarrow> nat" where
  "stepDelay x = (case x of (a, st, m, d) \<Rightarrow> d)"

definition stepTimer :: "nat \<Rightarrow> string \<times> string \<times> string \<times> nat \<Rightarrow> nat \<times> callback" where
  "stepTimer t0 x = (case x of (a, st, m, d) \<Rightarrow> (t0 + d, Step a st m))"

definition stepEntry :: "nat \<Rightarrow> string \<times> string \<times> string \<times> nat \<Rightarrow> AgentUpdate" where
  "stepEntry t0 x =
     (case x of (a, st, m, d) \<Rightarrow>
        \<lparr>agent = a, status = st, message = m, timestamp = t0 + d\<rparr>)"

section \<open>Invariants of a session\<close>

definition keyOf :: "AgentUpdate \<Rightarrow> string" where
  "keyOf u = updateKey (agent u) (status u) (message u)"

text \<open>The log and the set of emitted keys agree, and no triple is logged twice.\<close>

definition logged :: "page \<Rightarrow> bool" where
  "logged s =
     (keyOf ` set (updates s) \<subseteq> emittedUpdatesRef s \<and> distinct (map triple (updates s)))"

abbreviation pending :: "page \<Rightarrow> callback set" where
  "pending s \<equiv> snd ` set (timers s)"

text \<open>Demo mode is only ever set together with closing the stream and before
  any real update; timers other than the watchdog are armed in demo mode only.\<close>

definition inv1 :: "page \<Rightarrow> bool" where
  "inv1 s =
     ((demoModeRef s \<longrightarrow> eventSource s = Some CLOSED \<and> \<not> hasRealUpdatesRef s) \<and>
      (pending s \<subseteq> {Watchdog} \<or> demoModeRef s))"

text \<open>The starts of the generator that are still possible: the armed \<open>Simulate\<close>
  timers, and one more while \<^verbatim>\<open>triggerDemoMode\<close> can be reached and pass its guard
  (each of its callers runs only while the stream is not closed).\<close>

definition simulationsArmed :: "page \<Rightarrow> nat" where
  "simulationsArmed s = length (filter (\<lambda>t. snd t = Simulate) (timers s))"

definition budget :: "page \<Rightarrow> nat" where
  "budget s =
     simulationsArmed s +
     (if hasRealUpdatesRef s \<or> demoModeRef s \<or> eventSource s = Some CLOSED then 0 else 1)"

text \<open>The agents and statuses the page ever passes to \<^verbatim>\<open>pushUpdate\<close>: none holds
  the separator of the key.\<close>

definition wellNamed :: "string \<Rightarrow> string \<Rightarrow> bool" where
  "wellNamed a st =
     (a \<in> set [''System'', ''Orchestrator'', ''Extraction Agent'', ''Policy Agent'',
               ''Anomaly Agent'', ''Remediation Agent'', ''Synthesis Agent''] \<and>
      st \<in> set [''processing'', ''complete'', ''error''])"

definition logInv :: "page \<Rightarrow> bool" where
  "logInv s =
     (emittedUpdatesRef s = keyOf ` set (updates s) \<and>
      (\<forall>u \<in> set (updates s). wellNamed (agent u) (status u)))"

definition finalArmed :: "page \<Rightarrow> bool" where
  "finalArmed s = (\<exists>m. Step ''Synthesis Agent'' ''complete'' m \<in> pending s)"

text \<open>Progress of a session towards a terminal entry: demo mode has its verdict
  armed or logged; the watchdog is armed until the stream is closed; and a
  closed stream has seen a real update, or demo mode, or a terminal entry.\<close>

definition armedInv :: "page \<Rightarrow> bool" where
  "armedInv s =
     (logInv s \<and>
      (\<forall>a st m. Step a st m \<in> pending s \<longrightarrow> wellNamed a st) \<and>
      (demoModeRef s \<longrightarrow> Simulate \<in> pending s \<or> finalArmed s \<or> hasTerminal s))"

definition inv2 :: "page \<Rightarrow> bool" where
  "inv2 s =
     (armedInv s \<and>
      (hasTerminal s \<or> eventSource s = Some CLOSED \<or> Watchdog \<in> pending s) \<and>
      (eventSource s = Some CLOSED \<longrightarrow>
         hasRealUpdatesRef s \<or> demoModeRef s \<or> hasTerminal s))"

text \<open>A log with a terminal entry belongs to a stream that is not open.\<close>

definition inv3 :: "page \<Rightarrow> bool" where
  "inv3 s = (hasTerminal s \<longrightarrow> \<not> streaming s)"

text \<open>The stage frames on which the \<^verbatim>\<open>switch\<close> does something.\<close>

definition acts :: "data \<Rightarrow> bool" where
  "acts d =
     (d_status d \<in> set [''INGESTED'', ''EXTRACTION_FAILED'', ''POLICY_CHECK_FAILED'',
        ''ANOMALY_CHECK_FAILED'', ''APPROVED'', ''REJECTED'', ''NEEDS_REVIEW'', ''FAILED''] \<or>
      (d_status d = ''EXTRACTED'' \<and> f_extraction (d_findings d) \<noteq> None) \<or>
      (d_status d = ''POLICY_CHECKED'' \<and> f_policy (d_findings d) \<noteq> None) \<or>
      (d_status d = ''ANOMALY_CHECKED'' \<and> f_anomaly (d_findings d) \<noteq> None) \<or>
      (d_status d = ''REMEDIATION_COMPLETE'' \<and> f_remediation (d_findings d) \<noteq> None))"

section \<open>Properties of the update log\<close>

lemma pushUpdate_fields [simp]:
  "file' (pushUpdate a st m s) = file' s"
  "loading (pushUpdate a st m s) = loading s"
  "expenseId (pushUpdate a st m s) = expenseId s"
  "error (pushUpdate a st m s) = error s"
  "demoMode (pushUpdate a st m s) = demoMode s"
  "demoModeRef (pushUpdate a st m s) = demoModeRef s"
  "hasRealUpdatesRef (pushUpdate a st m s) = hasRealUpdatesRef s"
  "eventSource (pushUpdate a st m s) = eventSource s"
  "timers (pushUpdate a st m s) = timers s"
  "clock (pushUpdate a st m s) = clock s"
  by (simp_all add: pushUpdate_def Let_def)

lemma updates_pushUpdate:
  "updates (pushUpdate a st m s) =
     (if updateKey a st m \<in> emittedUpdatesRef s then updates s
      else updates s @ [\<lparr>agent = a, status = st, message = m, timestamp = clock s\<rparr>])"
  by (simp add: pushUpdate_def Let_def)

lemma emitted_pushUpdate:
  "emittedUpdatesRef (pushUpdate a st m s) = insert (updateKey a st m) (emittedUpdatesRef s)"
  by (auto simp: pushUpdate_def Let_def)

lemma logged_pushUpdate: "logged s \<Longrightarrow> logged (pushUpdate a st m s)"
  by (auto simp: logged_def updates_pushUpdate emitted_pushUpdate keyOf_def triple_def)

lemma logged_clock: "logged (s\<lparr>clock := t\<rparr>) = logged s"
  by (simp add: logged_def)

lemma logged_appends: "logged s \<Longrightarrow> logged (appends ops s)"
  by (induction ops s rule: appends.induct) (simp_all add: logged_pushUpdate logged_clock)

lemma logged_reset: "logged (s\<lparr>updates := [], emittedUpdatesRef := {}\<rparr>)"
  by (simp add: logged_def)

lemma pushUpdate_logged_duplicate:
  assumes "logged s" "u \<in> set (updates s)"
  shows "pushUpdate (agent u) (status u) (message u) s = s"
proof -
  from assms have "keyOf u \<in> emittedUpdatesRef s" by (auto simp: logged_def)
  then show ?thesis by (simp add: pushUpdate_def keyOf_def)
qed

section \<open>The handlers, field by field\<close>

lemma set_enqueue: "set (enqueue x xs) = insert x (set xs)"
  by (induction xs) auto

lemma pending_setTimeout: "pending (setTimeout cb d s) = insert cb (pending s)"
  by (simp add: setTimeout_def set_enqueue)

lemma setTimeout_fields [simp]:
  "demoModeRef (setTimeout cb d s) = demoModeRef s"
  "hasRealUpdatesRef (setTimeout cb d s) = hasRealUpdatesRef s"
  "eventSource (setTimeout cb d s) = eventSource s"
  "updates (setTimeout cb d s) = updates s"
  "emittedUpdatesRef (setTimeout cb d s) = emittedUpdatesRef s"
  "clock (setTimeout cb d s) = clock s"
  "file' (setTimeout cb d s) = file' s"
  "loading (setTimeout cb d s) = loading s"
  by (simp_all add: setTimeout_def)

lemma close_fields [simp]:
  "eventSource (close s) = Some CLOSED"
  "timers (close s) = timers s"
  "hasRealUpdatesRef (close s) = hasRealUpdatesRef s"
  "demoModeRef (close s) = demoModeRef s"
  "updates (close s) = updates s"
  "emittedUpdatesRef (close s) = emittedUpdatesRef s"
  "loading (close s) = loading s"
  "clock (close s) = clock s"
  by (simp_all add: close_def)

lemma setLoading_fields [simp]:
  "eventSource (setLoading v s) = eventSource s"
  "timers (setLoading v s) = timers s"
  "hasRealUpdatesRef (setLoading v s) = hasRealUpdatesRef s"
  "demoModeRef (setLoading v s) = demoModeRef s"
  "updates (setLoading v s) = updates s"
  "emittedUpdatesRef (setLoading v s) = emittedUpdatesRef s"
  "loading (setLoading v s) = v"
  "clock (setLoading v s) = clock s"
  by (simp_all add: setLoading_def)

lemma setDemoModeFlag_fields [simp]:
  "eventSource (setDemoModeFlag v s) = eventSource s"
  "timers (setDemoModeFlag v s) = timers s"
  "hasRealUpdatesRef (setDemoModeFlag v s) = hasRealUpdatesRef s"
  "demoModeRef (setDemoModeFlag v s) = v"
  "updates (setDemoModeFlag v s) = updates s"
  "emittedUpdatesRef (setDemoModeFlag v s) = emittedUpdatesRef s"
  "loading (setDemoModeFlag v s) = loading s"
  "clock (setDemoModeFlag v s) = clock s"
  by (simp_all add: setDemoModeFlag_def)

lemma markRealUpdate_fields [simp]:
  "eventSource (markRealUpdate s) = eventSource s"
  "timers (markRealUpdate s) = timers s"
  "hasRealUpdatesRef (markRealUpdate s)"
  "\<not> demoModeRef (markRealUpdate s)"
  "updates (markRealUpdate s) = updates s"
  "emittedUpdatesRef (markRealUpdate s) = emittedUpdatesRef s"
  "loading (markRealUpdate s) = loading s"
  "clock (markRealUpdate s) = clock s"
  by (simp_all add: markRealUpdate_def)

lemma handleFinalStatus_fields [simp]:
  "hasRealUpdatesRef (handleFinalStatus fs d s)"
  "\<not> demoModeRef (handleFinalStatus fs d s)"
  "eventSource (handleFinalStatus fs d s) = Some CLOSED"
  "timers (handleFinalStatus fs d s) = timers s"
  "\<not> loading (handleFinalStatus fs d s)"
  by (simp_all add: handleFinalStatus_def Let_def)

lemma triggerDemoMode_fields [simp]:
  "eventSource (triggerDemoMode m s) = eventSource s"
  "hasRealUpdatesRef (triggerDemoMode m s) = hasRealUpdatesRef s"
  by (simp_all add: triggerDemoMode_def)

text \<open>Every result of the \<^verbatim>\<open>switch\<close> has one of five shapes.\<close>

lemma stage_forms:
  assumes idle: "P s"
    and mark: "P (markRealUpdate s)"
    and push: "\<And>a st m. wellNamed a st \<Longrightarrow>
           \<not> terminalEntry \<lparr>agent = a, status = st, message = m, timestamp = 0\<rparr> \<Longrightarrow>
           P (pushUpdate a st m (markRealUpdate s))"
    and fatal: "\<And>a m. a = ''Extraction Agent'' \<or> a = ''Policy Agent'' \<Longrightarrow>
           P (close (setLoading False (pushUpdate a ''error'' m (markRealUpdate s))))"
    and final: "\<And>fs. P (handleFinalStatus fs d s)"
  shows "P (stage d s)"
proof -
  have p: "P (pushUpdate a st m (markRealUpdate s))"
    if "(a, st) \<in> set [(''Orchestrator'', ''processing''), (''Extraction Agent'', ''complete''),
          (''Policy Agent'', ''complete''), (''Anomaly Agent'', ''complete''),
          (''Anomaly Agent'', ''error''), (''Remediation Agent'', ''complete'')]" for a st m
    using that by (intro push) (auto simp: wellNamed_def terminalEntry_def)
  show ?thesis
    unfolding stage_def Let_def
    by (simp split: option.splits add: idle mark p fatal final)
qed

text \<open>Every result of \<^verbatim>\<open>onmessage\<close> likewise.\<close>

lemma onmessage_forms:
  assumes idle: "P s"
    and stalled_live: "hasRealUpdatesRef s \<Longrightarrow> P (close s)"
    and stalled: "\<And>m. \<not> hasRealUpdatesRef s \<Longrightarrow> P (close (triggerDemoMode m s))"
    and failed: "\<And>m. P (close (setLoading False (pushUpdate ''System'' ''error'' m s)))"
    and final: "\<And>fs d. P (handleFinalStatus fs d s)"
    and staged: "\<And>d. P (stage d s)"
  shows "P (onmessage fr s)"
  by (cases fr)
     (simp_all add: onmessage_def idle stalled_live stalled failed final staged
        split: option.splits)

lemma stage_timers [simp]: "timers (stage d s) = timers s"
  by (rule stage_forms) simp_all

lemma stage_live:
  "hasRealUpdatesRef s \<Longrightarrow> \<not> demoModeRef s \<Longrightarrow>
   hasRealUpdatesRef (stage d s) \<and> \<not> demoModeRef (stage d s)"
  by (rule stage_forms) simp_all

lemma stage_demoModeRef: "\<not> demoModeRef s \<Longrightarrow> \<not> demoModeRef (stage d s)"
  by (rule stage_forms) simp_all

lemma stage_blocked:
  "hasRealUpdatesRef s \<or> demoModeRef s \<Longrightarrow>
   hasRealUpdatesRef (stage d s) \<or> demoModeRef (stage d s)"
  by (rule stage_forms) simp_all

lemma stage_eventSource:
  "eventSource (stage d s) = eventSource s \<or> eventSource (stage d s) = Some CLOSED"
  by (rule stage_forms) simp_all

section \<open>Mode exclusivity\<close>

lemma inv1_quiet:
  "inv1 s \<Longrightarrow> \<not> demoModeRef s \<Longrightarrow> timers s' = timers s \<Longrightarrow> \<not> demoModeRef s' \<Longrightarrow> inv1 s'"
  by (simp add: inv1_def)

lemma inv1_same:
  "inv1 s \<Longrightarrow> timers s' = timers s \<Longrightarrow> demoModeRef s' = demoModeRef s \<Longrightarrow>
   hasRealUpdatesRef s' = hasRealUpdatesRef s \<Longrightarrow>
   eventSource s' = eventSource s \<or> eventSource s' = Some CLOSED \<Longrightarrow> inv1 s'"
  by (auto simp: inv1_def)

lemma inv1_trigger_close: "inv1 s \<Longrightarrow> inv1 (close (triggerDemoMode m s))"
  by (auto simp: inv1_def triggerDemoMode_def pending_setTimeout)

lemma inv1_stage: "inv1 s \<Longrightarrow> \<not> demoModeRef s \<Longrightarrow> inv1 (stage d s)"
  by (rule inv1_quiet [of s]) (simp_all add: stage_demoModeRef)

lemma inv1_onmessage:
  assumes i: "inv1 s" and o: "streaming s"
  shows "inv1 (onmessage fr s)"
proof -
  from i o have nd: "\<not> demoModeRef s" by (auto simp: inv1_def streaming_def)
  show ?thesis
  proof (rule onmessage_forms)
    show "inv1 s" by (rule i)
    show "inv1 (close s)" by (rule inv1_same [OF i]) simp_all
    show "inv1 (close (triggerDemoMode m s))" for m using i by (rule inv1_trigger_close)
    show "inv1 (close (setLoading False (pushUpdate ''System'' ''error'' m s)))" for m
      by (rule inv1_same [OF i]) simp_all
    show "inv1 (handleFinalStatus fs d s)" for fs d
      by (rule inv1_quiet [OF i nd]) simp_all
    show "inv1 (stage d s)" for d using i nd by (rule inv1_stage)
  qed
qed

lemma trigger_close_commute: "triggerDemoMode m (close s) = close (triggerDemoMode m s)"
  by (simp add: triggerDemoMode_def close_def setTimeout_def setDemoModeFlag_def
        pushUpdate_def Let_def)

lemma inv1_onerror: "inv1 s \<Longrightarrow> inv1 (onerror s)"
  by (simp add: onerror_def trigger_close_commute inv1_trigger_close inv1_same [of s "close s"])

lemma inv1_watchdog: "inv1 s \<Longrightarrow> inv1 (watchdog s)"
  by (simp add: watchdog_def inv1_trigger_close inv1_same [of s "close s"])

lemma fold_setTimeout_fields [simp]:
  "demoModeRef (fold (\<lambda>(a, st, m, d). setTimeout (Step a st m) d) xs s) = demoModeRef s"
  "hasRealUpdatesRef (fold (\<lambda>(a, st, m, d). setTimeout (Step a st m) d) xs s) =
     hasRealUpdatesRef s"
  "eventSource (fold (\<lambda>(a, st, m, d). setTimeout (Step a st m) d) xs s) = eventSource s"
  "updates (fold (\<lambda>(a, st, m, d). setTimeout (Step a st m) d) xs s) = updates s"
  "emittedUpdatesRef (fold (\<lambda>(a, st, m, d). setTimeout (Step a st m) d) xs s) =
     emittedUpdatesRef s"
  "clock (fold (\<lambda>(a, st, m, d). setTimeout (Step a st m) d) xs s) = clock s"
  "loading (fold (\<lambda>(a, st, m, d). setTimeout (Step a st m) d) xs s) = loading s"
  by (induction xs arbitrary: s; simp add: case_prod_beta)+

lemma fold_setTimeout_timers:
  "set (timers (fold (\<lambda>(a, st, m, d). setTimeout (Step a st m) d) xs s)) =
   set (timers s) \<union> (\<lambda>(a, st, m, d). (clock s + d, Step a st m)) ` set xs"
proof (induction xs arbitrary: s)
  case Nil
  show ?case by simp
next
  case (Cons x xs)
  obtain a st m d where x: "x = (a, st, m, d)" by (cases x)
  have "set (timers (setTimeout (Step a st m) d s)) =
        insert (clock s + d, Step a st m) (set (timers s))"
    by (simp add: setTimeout_def set_enqueue)
  then show ?case using Cons [of "setTimeout (Step a st m) d s"] x by simp
qed

lemma simulate_fields [simp]:
  "demoModeRef (simulateAgentUpdates j s) = demoModeRef s"
  "hasRealUpdatesRef (simulateAgentUpdates j s) = hasRealUpdatesRef s"
  "eventSource (simulateAgentUpdates j s) = eventSource s"
  "updates (simulateAgentUpdates j s) = updates s"
  "emittedUpdatesRef (simulateAgentUpdates j s) = emittedUpdatesRef s"
  "clock (simulateAgentUpdates j s) = clock s"
  "loading (simulateAgentUpdates j s) = loading s"
  by (simp_all add: simulateAgentUpdates_def)

lemma simulate_pending:
  "pending (simulateAgentUpdates j s) =
   pending s \<union> (\<lambda>(a, st, m, d). Step a st m) ` set (steps (file' s) j)"
  by (auto simp: simulateAgentUpdates_def fold_setTimeout_timers image_Un image_image
        case_prod_beta)

lemma stepCallback_fields [simp]:
  "demoModeRef (stepCallback a st m s) = demoModeRef s"
  "hasRealUpdatesRef (stepCallback a st m s) = hasRealUpdatesRef s"
  "eventSource (stepCallback a st m s) = eventSource s"
  "timers (stepCallback a st m s) = timers s"
  "clock (stepCallback a st m s) = clock s"
  "updates (stepCallback a st m s) = updates (pushUpdate a st m s)"
  "emittedUpdatesRef (stepCallback a st m s) = emittedUpdatesRef (pushUpdate a st m s)"
  by (simp_all add: stepCallback_def Let_def)

lemma inv1_runCallback:
  assumes "inv1 (s\<lparr>timers := (due, cb) # rest\<rparr>)"
  shows "inv1 (runCallback j cb (s\<lparr>timers := rest, clock := t\<rparr>))"
proof (cases cb)
  case Watchdog
  from assms have "inv1 (s\<lparr>timers := rest, clock := t\<rparr>)" by (auto simp: inv1_def)
  then show ?thesis using Watchdog by (simp add: inv1_watchdog)
next
  case Simulate
  with assms show ?thesis by (auto simp: inv1_def)
next
  case (Step a st m)
  with assms show ?thesis by (auto simp: inv1_def)
qed

lemma fire_cases:
  assumes "timers s = [] \<Longrightarrow> P s"
    and "\<And>due cb rest. timers s = (due, cb) # rest \<Longrightarrow>
           P (runCallback j cb (s\<lparr>timers := rest, clock := max (clock s) due\<rparr>))"
  shows "P (dispatch (TimerFires j) s)"
proof (cases "timers s")
  case Nil
  with assms(1) show ?thesis by simp
next
  case (Cons t rest)
  obtain due cb where "t = (due, cb)" by (cases t)
  with Cons assms(2) [of due cb rest] show ?thesis by simp
qed

lemma timers_head: "timers s = ts \<Longrightarrow> s\<lparr>timers := ts\<rparr> = s"
  by simp

lemma inv1_dispatch: "inv1 s \<Longrightarrow> inv1 (dispatch e s)"
proof (cases e)
  case (MessageEvent fr)
  assume "inv1 s" then show ?thesis using MessageEvent by (simp add: inv1_onmessage)
next
  case ErrorEvent
  assume "inv1 s" then show ?thesis using ErrorEvent by (simp add: inv1_onerror)
next
  case (TimerFires j)
  assume i: "inv1 s"
  show ?thesis unfolding TimerFires
  proof (rule fire_cases)
    show "inv1 s" by (rule i)
    fix due cb rest assume "timers s = (due, cb) # rest"
    with i have "inv1 (s\<lparr>timers := (due, cb) # rest\<rparr>)" by (simp add: timers_head)
    then show "inv1 (runCallback j cb (s\<lparr>timers := rest, clock := max (clock s) due\<rparr>))"
      by (rule inv1_runCallback)
  qed
next
  case (Elapse d)
  assume "inv1 s" then show ?thesis using Elapse by (auto simp: inv1_def split: list.splits)
qed

lemma inv1_run: "inv1 s \<Longrightarrow> inv1 (run evs s)"
  by (induction evs arbitrary: s) (simp_all add: inv1_dispatch)

lemma inv1_handleSubmit:
  "file' s = Some f \<Longrightarrow> timers s = [] \<Longrightarrow> inv1 (handleSubmit up s)"
  by (auto simp: inv1_def handleSubmit_def uploadFailed_def startRealTimeStream_def
        setTimeout_def Let_def split: upload.splits body.splits)

lemma inv1_session: "inv1 (session f up)"
  unfolding session_def
  by (rule inv1_handleSubmit [where f = f]) (simp_all add: chooseFile_def mounted_def)

lemma inv1_reachable: "inv1 (run evs (session f up))"
  by (rule inv1_run) (rule inv1_session)

lemma onmessage_live:
  "hasRealUpdatesRef s \<Longrightarrow> \<not> demoModeRef s \<Longrightarrow>
   hasRealUpdatesRef (onmessage fr s) \<and> \<not> demoModeRef (onmessage fr s)"
  by (rule onmessage_forms) (simp_all add: stage_live)

lemma closed_dispatch_demoModeRef:
  assumes c: "eventSource s = Some CLOSED"
  shows "demoModeRef (dispatch e s) = demoModeRef s"
proof (cases e)
  case (TimerFires j)
  show ?thesis unfolding TimerFires
  proof (rule fire_cases)
    fix due cb rest
    show "demoModeRef (runCallback j cb (s\<lparr>timers := rest, clock := max (clock s) due\<rparr>)) =
          demoModeRef s"
      using c by (cases cb) (simp_all add: watchdog_def)
  qed simp
qed (use c in \<open>auto simp: streaming_def split: list.splits\<close>)

lemma live_dispatch:
  assumes i: "inv1 s" and h: "hasRealUpdatesRef s"
  shows "hasRealUpdatesRef (dispatch e s) \<and> \<not> demoModeRef (dispatch e s) \<and>
         (isFrame e \<or> updates (dispatch e s) = updates s)"
proof -
  from i h have nd: "\<not> demoModeRef s" and p: "pending s \<subseteq> {Watchdog}"
    by (auto simp: inv1_def)
  show ?thesis
  proof (cases e)
    case (MessageEvent fr)
    then show ?thesis using h nd onmessage_live [of s fr] by (simp add: isFrame_def)
  next
    case ErrorEvent
    then show ?thesis using h nd by (simp add: onerror_def)
  next
    case (TimerFires j)
    show ?thesis unfolding TimerFires
    proof (rule fire_cases)
      show "hasRealUpdatesRef s \<and> \<not> demoModeRef s \<and>
            (isFrame (TimerFires j) \<or> updates s = updates s)" using h nd by simp
      fix due cb rest assume t: "timers s = (due, cb) # rest"
      with p have "cb = Watchdog" by auto
      then show "hasRealUpdatesRef (runCallback j cb (s\<lparr>timers := rest, clock := max (clock s) due\<rparr>)) \<and>
            \<not> demoModeRef (runCallback j cb (s\<lparr>timers := rest, clock := max (clock s) due\<rparr>)) \<and>
            (isFrame (TimerFires j) \<or>
             updates (runCallback j cb (s\<lparr>timers := rest, clock := max (clock s) due\<rparr>)) = updates s)"
        using h nd by (simp add: watchdog_def)
    qed
  next
    case (Elapse d)
    then show ?thesis using h nd by (simp split: list.splits prod.splits)
  qed
qed

section \<open>The start of a session\<close>

lemma session_streaming:
  "eventSource (session f (Response True st (ExpenseId eid))) = Some CONNECTING"
  "timers (session f (Response True st (ExpenseId eid))) = [(30000, Watchdog)]"
  "\<not> hasRealUpdatesRef (session f (Response True st (ExpenseId eid)))"
  "\<not> demoModeRef (session f (Response True st (ExpenseId eid)))"
  "loading (session f (Response True st (ExpenseId eid)))"
  "clock (session f (Response True st (ExpenseId eid))) = 0"
  "streaming (session f (Response True st (ExpenseId eid)))"
  by (simp_all add: session_def handleSubmit_def startRealTimeStream_def chooseFile_def
        mounted_def setTimeout_def setDemoModeFlag_def streaming_def Let_def)

lemma demoModeRef_triggerDemoMode:
  "demoModeRef (triggerDemoMode m s) = (demoModeRef s \<or> \<not> hasRealUpdatesRef s)"
  by (auto simp: triggerDemoMode_def)

lemma stage_ingested:
  "stage \<lparr>d_status = ''INGESTED'', d_error = e, d_finalStatus = fs, d_findings = fi\<rparr> s =
   pushUpdate ''Orchestrator'' ''processing'' ''Receipt ingested. Agents spinning up...''
     (markRealUpdate s)"
  by (simp add: stage_def)

lemma onmessage_ingested:
  "onmessage (stageFrame ''INGESTED'') s =
   pushUpdate ''Orchestrator'' ''processing'' ''Receipt ingested. Agents spinning up...''
     (markRealUpdate s)"
  by (simp add: onmessage_def stageFrame_def stagePayload_def stage_ingested)

section \<open>Deduplication and the exclusive mode\<close>

text \<open>
  C4. Within one session (the log and the set of emitted keys start empty, as
  \<^verbatim>\<open>handleSubmit\<close> leaves them), after any sequence of appends the log holds no
  \<open>(agent, status, message)\<close> triple twice, and appending the triple of a
  notification that is already in the log, at any later time, changes nothing.
\<close>

theorem dedup_idempotent:
  "distinct (map triple (updates (appends ops (s0\<lparr>updates := [], emittedUpdatesRef := {}\<rparr>)))) \<and>
   (\<forall>u t. u \<in> set (updates (appends ops (s0\<lparr>updates := [], emittedUpdatesRef := {}\<rparr>))) \<longrightarrow>
      pushUpdate (agent u) (status u) (message u)
        ((appends ops (s0\<lparr>updates := [], emittedUpdatesRef := {}\<rparr>))\<lparr>clock := t\<rparr>) =
      (appends ops (s0\<lparr>updates := [], emittedUpdatesRef := {}\<rparr>))\<lparr>clock := t\<rparr>)"
proof -
  let ?s = "appends ops (s0\<lparr>updates := [], emittedUpdatesRef := {}\<rparr>)"
  have l: "logged ?s" by (rule logged_appends) (rule logged_reset)
  then have "distinct (map triple (updates ?s))" by (simp add: logged_def)
  moreover have "pushUpdate (agent u) (status u) (message u) (?s\<lparr>clock := t\<rparr>) = ?s\<lparr>clock := t\<rparr>"
    if "u \<in> set (updates ?s)" for u t
  proof (rule pushUpdate_logged_duplicate)
    show "logged (?s\<lparr>clock := t\<rparr>)" using l by (simp add: logged_clock)
    show "u \<in> set (updates (?s\<lparr>clock := t\<rparr>))" using that by simp
  qed
  ultimately show ?thesis by blast
qed

theorem dedup_idempotent_witness:
  "\<lparr>agent = ''Policy Agent'', status = ''complete'', message = ''ok'', timestamp = 1\<rparr>
     \<in> set (updates (appends [(1, ''Policy Agent'', ''complete'', ''ok'')]
                (mounted\<lparr>updates := [], emittedUpdatesRef := {}\<rparr>))) \<and>
   pushUpdate ''Policy Agent'' ''complete'' ''ok''
     ((appends [(1, ''Policy Agent'', ''complete'', ''ok'')]
        (mounted\<lparr>updates := [], emittedUpdatesRef := {}\<rparr>))\<lparr>clock := 2\<rparr>) =
   (appends [(1, ''Policy Agent'', ''complete'', ''ok'')]
      (mounted\<lparr>updates := [], emittedUpdatesRef := {}\<rparr>))\<lparr>clock := 2\<rparr>"
proof -
  let ?u = "\<lparr>agent = ''Policy Agent'', status = ''complete'', message = ''ok'', timestamp = 1\<rparr>"
  let ?s = "appends [(1, ''Policy Agent'', ''complete'', ''ok'')]
              (mounted\<lparr>updates := [], emittedUpdatesRef := {}\<rparr>)"
  have h: "?u \<in> set (updates ?s)" by (simp add: updates_pushUpdate)
  from dedup_idempotent [of "[(1, ''Policy Agent'', ''complete'', ''ok'')]" mounted] h
  have "pushUpdate (agent ?u) (status ?u) (message ?u) (?s\<lparr>clock := 2\<rparr>) = ?s\<lparr>clock := 2\<rparr>"
    by blast
  with h show ?thesis by simp
qed

text \<open>
  C1. In every state a session can reach: once demo mode is set, a frame of the
  stream changes nothing (the stream was closed when the fallback was
  triggered, and a closed \<^verbatim>\<open>EventSource\<close> dispatches no event), and whatever
  happens next the session stays in demo mode without a real update; once a real
  update is recorded, whatever happens next the session stays live and out of
  demo mode, and only frames of the stream append to the log.
\<close>

theorem mode_exclusive:
  "(demoModeRef (run evs (session f up)) \<longrightarrow>
      dispatch (MessageEvent fr) (run evs (session f up)) = run evs (session f up) \<and>
      demoModeRef (dispatch e (run evs (session f up))) \<and>
      \<not> hasRealUpdatesRef (dispatch e (run evs (session f up)))) \<and>
   (hasRealUpdatesRef (run evs (session f up)) \<longrightarrow>
      hasRealUpdatesRef (dispatch e (run evs (session f up))) \<and>
      \<not> demoModeRef (dispatch e (run evs (session f up))) \<and>
      (isFrame e \<or>
       updates (dispatch e (run evs (session f up))) = updates (run evs (session f up))))"
proof -
  let ?s = "run evs (session f up)"
  have i: "inv1 ?s" by (rule inv1_reachable)
  have i': "inv1 (dispatch e ?s)" using i by (rule inv1_dispatch)
  have "dispatch (MessageEvent fr) ?s = ?s \<and> demoModeRef (dispatch e ?s) \<and>
        \<not> hasRealUpdatesRef (dispatch e ?s)" if d: "demoModeRef ?s"
  proof -
    from i d have c: "eventSource ?s = Some CLOSED" by (simp add: inv1_def)
    then have "dispatch (MessageEvent fr) ?s = ?s" by (simp add: streaming_def)
    moreover from c d have d': "demoModeRef (dispatch e ?s)"
      by (simp add: closed_dispatch_demoModeRef)
    moreover from i' d' have "\<not> hasRealUpdatesRef (dispatch e ?s)" by (simp add: inv1_def)
    ultimately show ?thesis by simp
  qed
  moreover have "hasRealUpdatesRef (dispatch e ?s) \<and> \<not> demoModeRef (dispatch e ?s) \<and>
      (isFrame e \<or> updates (dispatch e ?s) = updates ?s)" if "hasRealUpdatesRef ?s"
    using i that by (rule live_dispatch)
  ultimately show ?thesis by blast
qed

theorem mode_exclusive_witness:
  "demoModeRef (run [ErrorEvent] (session receipt uploaded)) \<and>
   dispatch (MessageEvent (stageFrame ''INGESTED'')) (run [ErrorEvent] (session receipt uploaded)) =
     run [ErrorEvent] (session receipt uploaded) \<and>
   hasRealUpdatesRef (run [MessageEvent (stageFrame ''INGESTED'')] (session receipt uploaded)) \<and>
   \<not> demoModeRef (dispatch ErrorEvent
        (run [MessageEvent (stageFrame ''INGESTED'')] (session receipt uploaded))) \<and>
   updates (dispatch ErrorEvent
        (run [MessageEvent (stageFrame ''INGESTED'')] (session receipt uploaded))) =
     updates (run [MessageEvent (stageFrame ''INGESTED'')] (session receipt uploaded))"
proof -
  have h1: "demoModeRef (run [ErrorEvent] (session receipt uploaded))"
    by (simp add: uploaded_def session_streaming onerror_def demoModeRef_triggerDemoMode)
  have h2: "hasRealUpdatesRef (run [MessageEvent (stageFrame ''INGESTED'')] (session receipt uploaded))"
    by (simp add: uploaded_def session_streaming onmessage_ingested)
  from mode_exclusive [of "[ErrorEvent]" receipt uploaded "stageFrame ''INGESTED''" ErrorEvent] h1
    mode_exclusive [of "[MessageEvent (stageFrame ''INGESTED'')]" receipt uploaded
      "stageFrame ''INGESTED''" ErrorEvent] h2
  show ?thesis by (simp add: isFrame_def)
qed

section \<open>Starts of the fallback generator\<close>

lemma length_filter_enqueue:
  "length (filter P (enqueue x xs)) = (if P x then 1 else 0) + length (filter P xs)"
  by (induction xs) auto

lemma armed_setTimeout:
  "simulationsArmed (setTimeout cb d s) = (if cb = Simulate then 1 else 0) + simulationsArmed s"
  by (simp add: simulationsArmed_def setTimeout_def length_filter_enqueue)

lemma armed_fold_steps:
  "simulationsArmed (fold (\<lambda>(a, st, m, d). setTimeout (Step a st m) d) xs s) =
   simulationsArmed s"
  by (induction xs arbitrary: s) (simp_all add: case_prod_beta armed_setTimeout)

lemma budget_same:
  "timers s' = timers s \<Longrightarrow> hasRealUpdatesRef s' = hasRealUpdatesRef s \<Longrightarrow>
   demoModeRef s' = demoModeRef s \<Longrightarrow> eventSource s' = eventSource s \<Longrightarrow>
   budget s' = budget s"
  by (simp add: budget_def simulationsArmed_def)

lemma budget_blocked:
  "timers s' = timers s \<Longrightarrow>
   hasRealUpdatesRef s' \<or> demoModeRef s' \<or> eventSource s' = Some CLOSED \<Longrightarrow>
   budget s' \<le> budget s"
  by (auto simp: budget_def simulationsArmed_def)

lemma budget_triggerDemoMode:
  assumes "eventSource s \<noteq> Some CLOSED"
  shows "budget (triggerDemoMode m s) = budget s"
proof (cases "hasRealUpdatesRef s \<or> demoModeRef s")
  case True
  then show ?thesis by (simp add: triggerDemoMode_def)
next
  case False
  have "simulationsArmed (pushUpdate ''System'' ''processing'' m (setDemoModeFlag True s)) =
        simulationsArmed s"
    by (simp add: simulationsArmed_def)
  with False assms show ?thesis
    by (simp add: budget_def triggerDemoMode_def armed_setTimeout)
qed

lemma budget_simps [simp]:
  "budget (setLoading v s) = budget s"
  "budget (pushUpdate a st m s) = budget s"
  by (rule budget_same; simp)+

lemma budget_close: "budget (close s) \<le> budget s"
  by (rule budget_blocked) simp_all

lemma budget_trigger_close:
  "eventSource s \<noteq> Some CLOSED \<Longrightarrow> budget (close (triggerDemoMode m s)) \<le> budget s"
  using budget_close [of "triggerDemoMode m s"] by (simp add: budget_triggerDemoMode)

lemma budget_stage: "budget (stage d s) \<le> budget s"
  by (rule stage_forms) (simp_all add: budget_blocked)

lemma budget_onmessage:
  "eventSource s \<noteq> Some CLOSED \<Longrightarrow> budget (onmessage fr s) \<le> budget s"
  by (rule onmessage_forms)
     (simp_all add: budget_trigger_close budget_close budget_stage budget_blocked)

lemma budget_onerror:
  "eventSource s \<noteq> Some CLOSED \<Longrightarrow> budget (onerror s) \<le> budget s"
  by (simp add: onerror_def trigger_close_commute budget_trigger_close budget_close)

lemma budget_watchdog: "budget (watchdog s) \<le> budget s"
  by (simp add: watchdog_def budget_trigger_close budget_close)

lemma budget_simulate: "budget (simulateAgentUpdates j s) = budget s"
  by (simp add: budget_def simulateAgentUpdates_def armed_fold_steps)

lemma budget_stepCallback: "budget (stepCallback a st m s) = budget s"
  by (rule budget_same) simp_all

lemma budget_dispatch:
  "(if startsSimulation e s then 1 else 0) + budget (dispatch e s) \<le> budget s"
proof (cases e)
  case (MessageEvent fr)
  then show ?thesis by (auto simp: budget_onmessage streaming_def)
next
  case ErrorEvent
  then show ?thesis by (auto simp: budget_onerror streaming_def)
next
  case (TimerFires j)
  show ?thesis
  proof (cases "timers s")
    case Nil
    then show ?thesis using TimerFires by simp
  next
    case (Cons t rest)
    obtain due cb where t: "t = (due, cb)" by (cases t)
    let ?s' = "s\<lparr>timers := rest, clock := max (clock s) due\<rparr>"
    have b: "budget s = (if cb = Simulate then 1 else 0) + budget ?s'"
      using Cons t by (simp add: budget_def simulationsArmed_def)
    have "budget (runCallback j cb ?s') \<le> budget ?s'"
      by (cases cb) (simp_all add: budget_watchdog budget_simulate budget_stepCallback)
    then show ?thesis using TimerFires Cons t b by simp
  qed
next
  case (Elapse d)
  then show ?thesis
    by (simp add: budget_def simulationsArmed_def split: list.splits prod.splits)
qed

lemma demoStarts_budget: "demoStarts evs s \<le> budget s"
proof (induction evs arbitrary: s)
  case Nil
  show ?case by simp
next
  case (Cons e evs)
  have "demoStarts evs (dispatch e s) \<le> budget (dispatch e s)" by (rule Cons.IH)
  with budget_dispatch [of e s] show ?case by simp
qed

lemma budget_session: "budget (session f up) = 1"
  by (simp add: session_def handleSubmit_def uploadFailed_def startRealTimeStream_def
        chooseFile_def mounted_def budget_def simulationsArmed_def setTimeout_def
        Let_def split: upload.splits body.splits)

text \<open>No start is left once a real update is marked, or once the stream is closed
  outside demo mode.\<close>

lemma budget_spent:
  assumes i: "inv1 s"
    and h: "hasRealUpdatesRef s \<or> (eventSource s = Some CLOSED \<and> \<not> demoModeRef s)"
  shows "budget s = 0"
proof -
  from i h have "pending s \<subseteq> {Watchdog}" by (auto simp: inv1_def)
  then have "filter (\<lambda>t. snd t = Simulate) (timers s) = []"
    by (auto simp: filter_empty_conv)
  with h show ?thesis by (auto simp: budget_def simulationsArmed_def)
qed

text \<open>A frame other than the stall signal that appends to the log marks the
  session live, or (an explicit error of the backend) closes the stream outside
  demo mode.\<close>

lemma stage_recorded:
  "updates (stage d s) \<noteq> updates s \<Longrightarrow> hasRealUpdatesRef (stage d s)"
  by (rule stage_forms [where P = "\<lambda>s'. updates s' \<noteq> updates s \<longrightarrow> hasRealUpdatesRef s'", rule_format])
     simp_all

lemma recorded_frame:
  assumes i: "inv1 s" and o: "streaming s" and t: "d_status d \<noteq> ''TIMEOUT''"
    and u: "updates (onmessage (Json d) s) \<noteq> updates s"
  shows "hasRealUpdatesRef (onmessage (Json d) s) \<or>
         (eventSource (onmessage (Json d) s) = Some CLOSED \<and>
          \<not> demoModeRef (onmessage (Json d) s))"
proof -
  from i o have n: "\<not> demoModeRef s" by (auto simp: inv1_def streaming_def)
  show ?thesis
  proof (cases "d_error d")
    case (Some e)
    with t n show ?thesis by (simp add: onmessage_def)
  next
    case None
    show ?thesis
    proof (cases "d_status d = ''DONE'' \<and> d_finalStatus d \<noteq> None")
      case True
      with t None show ?thesis by (simp add: onmessage_def)
    next
      case False
      with t None have e: "onmessage (Json d) s = stage d s" by (auto simp: onmessage_def)
      with u show ?thesis by (simp add: stage_recorded)
    qed
  qed
qed

section \<open>Progress towards a terminal entry\<close>

lemma bar_split:
  assumes "CHR ''|'' \<notin> set a" "CHR ''|'' \<notin> set a'" "a @ CHR ''|'' # r = a' @ CHR ''|'' # r'"
  shows "a = a' \<and> r = r'"
proof -
  have "takeWhile (\<lambda>c. c \<noteq> CHR ''|'') (a @ CHR ''|'' # r) = a"
    using assms(1) by (auto simp: takeWhile_tail)
  moreover have "takeWhile (\<lambda>c. c \<noteq> CHR ''|'') (a' @ CHR ''|'' # r') = a'"
    using assms(2) by (auto simp: takeWhile_tail)
  ultimately have "a = a'" using assms(3) by simp
  with assms(3) show ?thesis by simp
qed

lemma wellNamed_no_bar: "wellNamed a st \<Longrightarrow> CHR ''|'' \<notin> set a \<and> CHR ''|'' \<notin> set st"
  by (auto simp: wellNamed_def)

lemma updateKey_inj:
  assumes "wellNamed a st" "wellNamed a' st'" "updateKey a st m = updateKey a' st' m'"
  shows "a = a' \<and> st = st' \<and> m = m'"
proof -
  from assms(3)
  have e: "a @ CHR ''|'' # (st @ CHR ''|'' # m) = a' @ CHR ''|'' # (st' @ CHR ''|'' # m')"
    by (simp add: updateKey_def)
  from bar_split [OF _ _ e] assms(1,2)
  have a: "a = a'" and r: "st @ CHR ''|'' # m = st' @ CHR ''|'' # m'"
    by (simp_all add: wellNamed_no_bar)
  from bar_split [OF _ _ r] assms(1,2) have "st = st' \<and> m = m'"
    by (simp add: wellNamed_no_bar)
  with a show ?thesis by simp
qed

lemma hasTerminal_same: "updates s' = updates s \<Longrightarrow> hasTerminal s' = hasTerminal s"
  by (simp add: hasTerminal_def)

lemma logInv_same:
  "updates s' = updates s \<Longrightarrow> emittedUpdatesRef s' = emittedUpdatesRef s \<Longrightarrow>
   logInv s' = logInv s"
  by (simp add: logInv_def)

lemma hasTerminal_simps [simp]:
  "hasTerminal (setLoading v s) = hasTerminal s"
  "hasTerminal (close s) = hasTerminal s"
  "hasTerminal (setDemoModeFlag v s) = hasTerminal s"
  "hasTerminal (markRealUpdate s) = hasTerminal s"
  "hasTerminal (setTimeout cb d s) = hasTerminal s"
  "hasTerminal (simulateAgentUpdates j s) = hasTerminal s"
  "hasTerminal (stepCallback a st m s) = hasTerminal (pushUpdate a st m s)"
  by (rule hasTerminal_same; simp)+

lemma logInv_simps [simp]:
  "logInv (setLoading v s) = logInv s"
  "logInv (close s) = logInv s"
  "logInv (setDemoModeFlag v s) = logInv s"
  "logInv (markRealUpdate s) = logInv s"
  "logInv (setTimeout cb d s) = logInv s"
  "logInv (simulateAgentUpdates j s) = logInv s"
  "logInv (stepCallback a st m s) = logInv (pushUpdate a st m s)"
  by (rule logInv_same; simp)+

lemma hasTerminal_pushUpdate: "hasTerminal s \<Longrightarrow> hasTerminal (pushUpdate a st m s)"
  by (simp add: hasTerminal_def updates_pushUpdate)

lemma hasTerminal_pushUpdate_other:
  "\<not> terminalEntry \<lparr>agent = a, status = st, message = m, timestamp = 0\<rparr> \<Longrightarrow>
   hasTerminal (pushUpdate a st m s) = hasTerminal s"
  by (auto simp: hasTerminal_def updates_pushUpdate terminalEntry_def)

lemma logInv_pushUpdate: "logInv s \<Longrightarrow> wellNamed a st \<Longrightarrow> logInv (pushUpdate a st m s)"
  by (auto simp: logInv_def updates_pushUpdate emitted_pushUpdate keyOf_def)

lemma push_terminal:
  assumes l: "logInv s" and w: "wellNamed a st"
    and t: "terminalEntry \<lparr>agent = a, status = st, message = m, timestamp = n\<rparr>"
  shows "hasTerminal (pushUpdate a st m s)"
proof (cases "updateKey a st m \<in> emittedUpdatesRef s")
  case True
  with l obtain u where u: "u \<in> set (updates s)" "keyOf u = updateKey a st m"
    by (auto simp: logInv_def)
  from l u(1) have "wellNamed (agent u) (status u)" by (simp add: logInv_def)
  from updateKey_inj [OF this w] u(2) have "agent u = a" "status u = st"
    by (simp_all add: keyOf_def)
  with t have "terminalEntry u" by (simp add: terminalEntry_def)
  with u(1) have "hasTerminal s" by (auto simp: hasTerminal_def list_ex_iff)
  then show ?thesis by (rule hasTerminal_pushUpdate)
next
  case False
  with t show ?thesis by (simp add: hasTerminal_def updates_pushUpdate terminalEntry_def)
qed

lemma push_other:
  assumes l: "logInv s" and w: "wellNamed a st"
    and n: "\<not> hasTerminal s"
    and t: "terminalEntry \<lparr>agent = a, status = st, message = m, timestamp = 0\<rparr>"
  shows "updates (pushUpdate a st m s) =
         updates s @ [\<lparr>agent = a, status = st, message = m, timestamp = clock s\<rparr>]"
proof (cases "updateKey a st m \<in> emittedUpdatesRef s")
  case True
  with l obtain u where u: "u \<in> set (updates s)" "keyOf u = updateKey a st m"
    by (auto simp: logInv_def)
  from l u(1) have "wellNamed (agent u) (status u)" by (simp add: logInv_def)
  from updateKey_inj [OF this w] u(2) have "agent u = a" "status u = st"
    by (simp_all add: keyOf_def)
  with t have "terminalEntry u" by (simp add: terminalEntry_def)
  with u(1) n show ?thesis by (auto simp: hasTerminal_def list_ex_iff)
next
  case False
  then show ?thesis by (simp add: updates_pushUpdate)
qed

lemma handleFinalStatus_logInv: "logInv s \<Longrightarrow> logInv (handleFinalStatus fs d s)"
  by (simp add: handleFinalStatus_def Let_def logInv_pushUpdate wellNamed_def)

lemma handleFinalStatus_hasTerminal: "logInv s \<Longrightarrow> hasTerminal (handleFinalStatus fs d s)"
  by (simp add: handleFinalStatus_def Let_def push_terminal wellNamed_def terminalEntry_def)

lemma stage_logInv: "logInv s \<Longrightarrow> logInv (stage d s)"
  by (rule stage_forms)
     (auto simp: logInv_pushUpdate handleFinalStatus_logInv wellNamed_def)

lemma stage_hasTerminal: "logInv s \<Longrightarrow> hasTerminal s \<Longrightarrow> hasTerminal (stage d s)"
  by (rule stage_forms) (simp_all add: hasTerminal_pushUpdate handleFinalStatus_hasTerminal)

lemma stage_idle: "\<not> acts d \<Longrightarrow> stage d s = s"
proof -
  assume n: "\<not> acts d"
  have skip: "stage d s = s"
    if "(d_status d = ''EXTRACTED'' \<and> f_extraction (d_findings d) = None) \<or>
        (d_status d = ''POLICY_CHECKED'' \<and> f_policy (d_findings d) = None) \<or>
        (d_status d = ''ANOMALY_CHECKED'' \<and> f_anomaly (d_findings d) = None) \<or>
        (d_status d = ''REMEDIATION_COMPLETE'' \<and> f_remediation (d_findings d) = None)"
    using that by (elim disjE conjE) (simp_all add: stage_def)
  show ?thesis
  proof (cases "d_status d \<in> set [''EXTRACTED'', ''POLICY_CHECKED'', ''ANOMALY_CHECKED'',
      ''REMEDIATION_COMPLETE'']")
    case True
    with n show ?thesis by (intro skip) (auto simp: acts_def)
  next
    case False
    with n show ?thesis by (simp add: acts_def stage_def)
  qed
qed


lemma finalArmed_same: "timers s' = timers s \<Longrightarrow> finalArmed s' = finalArmed s"
  by (simp add: finalArmed_def)

text \<open>Steps that keep the timers.\<close>

lemma armedInv_live:
  "armedInv s \<Longrightarrow> logInv s' \<Longrightarrow> timers s' = timers s \<Longrightarrow> \<not> demoModeRef s' \<Longrightarrow> armedInv s'"
  by (simp add: armedInv_def)

lemma armedInv_same:
  "armedInv s \<Longrightarrow> logInv s' \<Longrightarrow> timers s' = timers s \<Longrightarrow>
   demoModeRef s' = demoModeRef s \<Longrightarrow> (hasTerminal s \<longrightarrow> hasTerminal s') \<Longrightarrow> armedInv s'"
  by (auto simp: armedInv_def finalArmed_def)

lemma inv2_live:
  assumes "inv2 s" "logInv s'" "timers s' = timers s" "hasRealUpdatesRef s'" "\<not> demoModeRef s'"
    "hasTerminal s \<longrightarrow> hasTerminal s'"
    "eventSource s' = eventSource s \<or> eventSource s' = Some CLOSED"
  shows "inv2 s'"
  using assms by (auto simp: inv2_def armedInv_live)

lemma inv2_closedI:
  "armedInv s \<Longrightarrow> eventSource s = Some CLOSED \<Longrightarrow>
   hasRealUpdatesRef s \<or> demoModeRef s \<or> hasTerminal s \<Longrightarrow> inv2 s"
  by (simp add: inv2_def)

lemma armedInv_close: "armedInv s \<Longrightarrow> armedInv (close s)"
  by (rule armedInv_same [of s]) (simp_all add: armedInv_def)

lemma armedInv_trigger:
  assumes "armedInv s"
  shows "armedInv (triggerDemoMode m s)"
proof (cases "hasRealUpdatesRef s \<or> demoModeRef s")
  case True
  with assms show ?thesis by (simp add: triggerDemoMode_def)
next
  case False
  let ?t = "setTimeout Simulate 500
              (pushUpdate ''System'' ''processing'' m (setDemoModeFlag True s))"
  have t: "triggerDemoMode m s = ?t" using False by (simp add: triggerDemoMode_def)
  have "logInv ?t" using assms by (simp add: armedInv_def logInv_pushUpdate wellNamed_def)
  moreover have "pending ?t = insert Simulate (pending s)" by (simp add: pending_setTimeout)
  ultimately show ?thesis using assms unfolding t by (simp add: armedInv_def)
qed

lemma inv2_close:
  "armedInv s \<Longrightarrow> hasRealUpdatesRef s \<or> demoModeRef s \<or> hasTerminal s \<Longrightarrow> inv2 (close s)"
  by (rule inv2_closedI) (simp_all add: armedInv_close)

lemma inv2_trigger_close:
  "armedInv s \<Longrightarrow> \<not> hasRealUpdatesRef s \<Longrightarrow> inv2 (close (triggerDemoMode m s))"
  by (rule inv2_closedI)
     (simp_all add: armedInv_close armedInv_trigger demoModeRef_triggerDemoMode)

lemma inv2_armedInv: "inv2 s \<Longrightarrow> armedInv s"
  by (simp add: inv2_def)

lemma inv2_logInv: "inv2 s \<Longrightarrow> logInv s"
  by (simp add: inv2_def armedInv_def)

lemma inv2_handleFinalStatus: "inv2 s \<Longrightarrow> inv2 (handleFinalStatus fs d s)"
  by (rule inv2_live [of s])
     (simp_all add: inv2_logInv handleFinalStatus_logInv handleFinalStatus_hasTerminal)

lemma inv2_stage:
  assumes i: "inv2 s"
  shows "inv2 (stage d s)"
proof (rule stage_forms)
  note l = inv2_logInv [OF i]
  show "inv2 s" by (rule i)
  show "inv2 (markRealUpdate s)" by (rule inv2_live [OF i]) (simp_all add: l)
  show "inv2 (pushUpdate a st m (markRealUpdate s))" if "wellNamed a st" for a st m
    by (rule inv2_live [OF i]) (simp_all add: l that logInv_pushUpdate hasTerminal_pushUpdate)
  show "inv2 (close (setLoading False (pushUpdate a ''error'' m (markRealUpdate s))))"
    if "a = ''Extraction Agent'' \<or> a = ''Policy Agent''" for a m
  proof (rule inv2_live [OF i])
    show "logInv (close (setLoading False (pushUpdate a ''error'' m (markRealUpdate s))))"
      using that l by (auto simp: logInv_pushUpdate wellNamed_def)
  qed (simp_all add: hasTerminal_pushUpdate)
  show "inv2 (handleFinalStatus fs d s)" for fs using i by (rule inv2_handleFinalStatus)
qed

lemma inv2_explicit_error:
  assumes i: "inv2 s"
  shows "inv2 (close (setLoading False (pushUpdate ''System'' ''error'' m s)))"
proof (rule inv2_closedI)
  note l = inv2_logInv [OF i]
  have t: "hasTerminal (pushUpdate ''System'' ''error'' m s)"
    by (rule push_terminal [OF l, where n = 0]) (simp_all add: wellNamed_def terminalEntry_def)
  then show "hasRealUpdatesRef (close (setLoading False (pushUpdate ''System'' ''error'' m s))) \<or>
        demoModeRef (close (setLoading False (pushUpdate ''System'' ''error'' m s))) \<or>
        hasTerminal (close (setLoading False (pushUpdate ''System'' ''error'' m s)))"
    by simp
  show "armedInv (close (setLoading False (pushUpdate ''System'' ''error'' m s)))"
    by (rule armedInv_same [OF inv2_armedInv [OF i]])
       (simp_all add: l logInv_pushUpdate wellNamed_def hasTerminal_pushUpdate)
qed simp

lemma inv2_onmessage:
  assumes i: "inv2 s"
  shows "inv2 (onmessage fr s)"
proof (rule onmessage_forms)
  note a = inv2_armedInv [OF i]
  show "inv2 s" by (rule i)
  show "inv2 (close s)" if "hasRealUpdatesRef s" using a that by (simp add: inv2_close)
  show "inv2 (close (triggerDemoMode m s))" if "\<not> hasRealUpdatesRef s" for m
    using a that by (rule inv2_trigger_close)
  show "inv2 (close (setLoading False (pushUpdate ''System'' ''error'' m s)))" for m
    using i by (rule inv2_explicit_error)
  show "inv2 (handleFinalStatus fs d s)" for fs d using i by (rule inv2_handleFinalStatus)
  show "inv2 (stage d s)" for d using i by (rule inv2_stage)
qed

lemma inv2_onerror: "inv2 s \<Longrightarrow> inv2 (onerror s)"
  by (simp add: onerror_def trigger_close_commute inv2_trigger_close inv2_close inv2_armedInv)

lemma armedInv_tail:
  assumes "armedInv (s\<lparr>timers := (due, Watchdog) # rest\<rparr>)"
  shows "armedInv (s\<lparr>timers := rest, clock := t\<rparr>)"
  using assms by (auto simp: armedInv_def logInv_def hasTerminal_def finalArmed_def)

lemma inv2_watchdog:
  assumes i: "inv2 (s\<lparr>timers := (due, Watchdog) # rest\<rparr>)"
  shows "inv2 (watchdog (s\<lparr>timers := rest, clock := t\<rparr>))"
proof -
  let ?s = "s\<lparr>timers := rest, clock := t\<rparr>"
  have a: "armedInv ?s" using inv2_armedInv [OF i] by (rule armedInv_tail)
  show ?thesis
  proof (cases "eventSource s = Some CLOSED")
    case True
    from i True have "hasRealUpdatesRef s \<or> demoModeRef s \<or> hasTerminal s"
      by (simp add: inv2_def hasTerminal_def)
    then have "hasRealUpdatesRef ?s \<or> demoModeRef ?s \<or> hasTerminal ?s"
      by (simp add: hasTerminal_def)
    with a True have "inv2 ?s" by (intro inv2_closedI) simp_all
    with True show ?thesis by (simp add: watchdog_def)
  next
    case False
    then show ?thesis using a by (simp add: watchdog_def inv2_trigger_close inv2_close)
  qed
qed

lemma steps_wellNamed: "(a, st, m, d) \<in> set (steps f j) \<Longrightarrow> wellNamed a st"
  by (auto simp: steps_def wellNamed_def)

lemma steps_final: "\<exists>m d. (''Synthesis Agent'', ''complete'', m, d) \<in> set (steps f j)"
  by (simp add: steps_def)

lemma inv2_simulate:
  assumes i: "inv2 (s\<lparr>timers := (due, Simulate) # rest\<rparr>)"
  shows "inv2 (simulateAgentUpdates j (s\<lparr>timers := rest, clock := t\<rparr>))"
proof -
  let ?s = "s\<lparr>timers := rest, clock := t\<rparr>"
  let ?u = "simulateAgentUpdates j ?s"
  have p: "pending ?u = snd ` set rest \<union> (\<lambda>(a, st, m, d). Step a st m) ` set (steps (file' s) j)"
    by (simp add: simulate_pending)
  obtain m d where "(''Synthesis Agent'', ''complete'', m, d) \<in> set (steps (file' s) j)"
    using steps_final by blast
  then have "Step ''Synthesis Agent'' ''complete'' m \<in> pending ?u"
    unfolding p by force
  then have f: "finalArmed ?u" unfolding finalArmed_def by blast
  have n: "wellNamed a st" if "Step a st m \<in> pending ?u" for a st m
  proof -
    from that p
    have "Step a st m \<in> snd ` set rest \<or> (\<exists>d. (a, st, m, d) \<in> set (steps (file' s) j))"
      by auto
    moreover from i have "\<forall>a st m. Step a st m \<in> snd ` set rest \<longrightarrow> wellNamed a st"
      by (simp add: inv2_def armedInv_def)
    ultimately show ?thesis using steps_wellNamed by blast
  qed
  have l: "logInv ?u" using i by (simp add: inv2_def armedInv_def logInv_def)
  have h: "hasTerminal ?u = hasTerminal s" by (simp add: hasTerminal_def)
  have w: "Watchdog \<in> pending ?u \<longleftrightarrow> Watchdog \<in> snd ` set rest" unfolding p by auto
  have "armedInv ?u" unfolding armedInv_def using l n f by blast
  moreover have "hasTerminal ?u \<or> eventSource ?u = Some CLOSED \<or> Watchdog \<in> pending ?u"
    using i unfolding h w by (auto simp: inv2_def hasTerminal_def)
  moreover have "eventSource ?u = Some CLOSED \<longrightarrow>
      hasRealUpdatesRef ?u \<or> demoModeRef ?u \<or> hasTerminal ?u"
    using i unfolding h by (auto simp: inv2_def hasTerminal_def)
  ultimately show ?thesis unfolding inv2_def by blast
qed

lemma inv2_step:
  assumes i: "inv2 (s\<lparr>timers := (due, Step a st m) # rest\<rparr>)"
  shows "inv2 (stepCallback a st m (s\<lparr>timers := rest, clock := t\<rparr>))"
proof -
  let ?s = "s\<lparr>timers := rest, clock := t\<rparr>"
  let ?u = "stepCallback a st m ?s"
  from i have w: "wellNamed a st" by (auto simp: inv2_def armedInv_def)
  from i have l0: "logInv ?s" by (simp add: inv2_def armedInv_def logInv_def)
  then have l: "logInv ?u" using w by (simp add: logInv_pushUpdate)
  have mono: "hasTerminal ?u" if "hasTerminal s"
  proof -
    from that have "hasTerminal ?s" by (simp add: hasTerminal_def)
    then show ?thesis by (simp add: hasTerminal_pushUpdate)
  qed
  have fin: "hasTerminal ?u" if "a = ''Synthesis Agent''" "st = ''complete''"
    using push_terminal [OF l0 w, of m 0] that by (simp add: terminalEntry_def)
  have f: "finalArmed ?u \<or> hasTerminal ?u"
    if "finalArmed (s\<lparr>timers := (due, Step a st m) # rest\<rparr>)"
    using that fin by (auto simp: finalArmed_def)
  have "armedInv ?u" unfolding armedInv_def
  proof (intro conjI)
    show "logInv ?u" by (rule l)
    show "\<forall>a' st' m'. Step a' st' m' \<in> pending ?u \<longrightarrow> wellNamed a' st'"
      using i by (auto simp: inv2_def armedInv_def)
    show "demoModeRef ?u \<longrightarrow> Simulate \<in> pending ?u \<or> finalArmed ?u \<or> hasTerminal ?u"
      using i mono f by (auto simp: inv2_def armedInv_def hasTerminal_def)
  qed
  moreover have "hasTerminal ?u \<or> eventSource ?u = Some CLOSED \<or> Watchdog \<in> pending ?u"
    using i mono by (auto simp: inv2_def hasTerminal_def)
  moreover have "eventSource ?u = Some CLOSED \<longrightarrow>
      hasRealUpdatesRef ?u \<or> demoModeRef ?u \<or> hasTerminal ?u"
    using i mono by (auto simp: inv2_def hasTerminal_def)
  ultimately show ?thesis unfolding inv2_def by blast
qed

lemma inv2_dispatch: "inv2 s \<Longrightarrow> inv2 (dispatch e s)"
proof (cases e)
  case (MessageEvent fr)
  assume "inv2 s" then show ?thesis using MessageEvent by (simp add: inv2_onmessage)
next
  case ErrorEvent
  assume "inv2 s" then show ?thesis using ErrorEvent by (simp add: inv2_onerror)
next
  case (TimerFires j)
  assume i: "inv2 s"
  show ?thesis unfolding TimerFires
  proof (rule fire_cases)
    show "inv2 s" by (rule i)
    fix due cb rest assume "timers s = (due, cb) # rest"
    with i have "inv2 (s\<lparr>timers := (due, cb) # rest\<rparr>)" by (simp add: timers_head)
    then show "inv2 (runCallback j cb (s\<lparr>timers := rest, clock := max (clock s) due\<rparr>))"
      by (cases cb) (simp_all add: inv2_watchdog inv2_simulate inv2_step)
  qed
next
  case (Elapse d)
  assume "inv2 s"
  then have "inv2 (s\<lparr>clock := c\<rparr>)" for c
    by (simp add: inv2_def armedInv_def logInv_def hasTerminal_def finalArmed_def)
  then show ?thesis using Elapse by (simp split: list.splits prod.splits)
qed

lemma inv2_run: "inv2 s \<Longrightarrow> inv2 (run evs s)"
  by (induction evs arbitrary: s) (simp_all add: inv2_dispatch)


lemma logInv_reset:
  "logInv ((setDemoModeFlag False
      (s\<lparr>loading := True, updates := [], error := None, expenseId := None\<rparr>))
    \<lparr>hasRealUpdatesRef := False, emittedUpdatesRef := {}\<rparr>)"
  by (simp add: logInv_def setDemoModeFlag_def)

lemma uploadFailed_fields [simp]:
  "eventSource (uploadFailed e s) = eventSource s"
  "timers (uploadFailed e s) = timers s"
  "hasRealUpdatesRef (uploadFailed e s) = hasRealUpdatesRef s"
  "demoModeRef (uploadFailed e s) = demoModeRef s"
  "\<not> loading (uploadFailed e s)"
  "error (uploadFailed e s) \<noteq> None"
  by (simp_all add: uploadFailed_def setLoading_def)

lemma uploadFailed_logInv: "logInv s \<Longrightarrow> logInv (uploadFailed e s)"
proof -
  assume "logInv s"
  then have "logInv (s\<lparr>error := x\<rparr>)" for x by (simp add: logInv_def)
  then show ?thesis by (simp add: uploadFailed_def logInv_pushUpdate wellNamed_def)
qed

lemma uploadFailed_hasTerminal: "logInv s \<Longrightarrow> hasTerminal (uploadFailed e s)"
proof -
  assume "logInv s"
  then have "logInv (s\<lparr>error := x\<rparr>)" for x by (simp add: logInv_def)
  then show ?thesis
    by (simp add: uploadFailed_def push_terminal wellNamed_def terminalEntry_def)
qed

lemma inv2_failed:
  "logInv s \<Longrightarrow> timers s = [] \<Longrightarrow> \<not> demoModeRef s \<Longrightarrow> inv2 (uploadFailed e s)"
  by (simp add: inv2_def armedInv_def uploadFailed_logInv uploadFailed_hasTerminal)

lemma inv2_handleSubmit:
  assumes "file' s = Some f" "timers s = []"
  shows "inv2 (handleSubmit up s)"
proof -
  let ?s1 = "(setDemoModeFlag False
      (s\<lparr>loading := True, updates := [], error := None, expenseId := None\<rparr>))
    \<lparr>hasRealUpdatesRef := False, emittedUpdatesRef := {}\<rparr>"
  let ?s2 = "pushUpdate ''System'' ''processing'' ''Uploading receipt to Cloud Storage...'' ?s1"
  have l2: "logInv ?s2" by (intro logInv_pushUpdate logInv_reset) (simp add: wellNamed_def)
  have t2: "timers ?s2 = []" using assms(2) by (simp add: setDemoModeFlag_def)
  have d2: "\<not> demoModeRef ?s2" by (simp add: setDemoModeFlag_def)
  have f: "inv2 (uploadFailed e ?s2)" for e using l2 t2 d2 by (rule inv2_failed)
  have g: "inv2 (uploadFailed e (?s2\<lparr>expenseId := Some v\<rparr>))" for e v
  proof (rule inv2_failed)
    show "logInv (?s2\<lparr>expenseId := Some v\<rparr>)" using l2 by (simp add: logInv_def)
    show "timers (?s2\<lparr>expenseId := Some v\<rparr>) = []" using t2 by simp
    show "\<not> demoModeRef (?s2\<lparr>expenseId := Some v\<rparr>)" using d2 by simp
  qed
  have "inv2 (startRealTimeStream eid (pushUpdate ''Orchestrator'' ''complete'' m
          (?s2\<lparr>expenseId := Some eid\<rparr>)))" for eid m
  proof -
    let ?s3 = "pushUpdate ''Orchestrator'' ''complete'' m (?s2\<lparr>expenseId := Some eid\<rparr>)"
    from l2 have "logInv (?s2\<lparr>expenseId := Some eid\<rparr>)" by (simp add: logInv_def)
    then have "logInv ?s3" by (rule logInv_pushUpdate) (simp add: wellNamed_def)
    then have "logInv (startRealTimeStream eid ?s3)"
      by (simp add: startRealTimeStream_def logInv_def)
    moreover have "timers (startRealTimeStream eid ?s3) = [(clock s + 30000, Watchdog)]"
      using assms(2) by (simp add: startRealTimeStream_def setTimeout_def setDemoModeFlag_def)
    moreover have "\<not> demoModeRef (startRealTimeStream eid ?s3)"
      by (simp add: startRealTimeStream_def setDemoModeFlag_def)
    moreover have "eventSource (startRealTimeStream eid ?s3) = Some CONNECTING"
      by (simp add: startRealTimeStream_def)
    ultimately show ?thesis by (simp add: inv2_def armedInv_def)
  qed
  with f g show ?thesis using assms(1)
    by (simp add: handleSubmit_def Let_def split: upload.splits body.splits)
qed

lemma inv2_session: "inv2 (session f up)"
  unfolding session_def
  by (rule inv2_handleSubmit [where f = f]) (simp_all add: chooseFile_def mounted_def)

lemma run_append: "run (evs @ evs') s = run evs' (run evs s)"
  by (induction evs arbitrary: s) simp_all

lemma inv2_reachable: "inv2 (run evs (session f up))"
  by (rule inv2_run) (rule inv2_session)

section \<open>A terminal entry closes the stream\<close>

lemma inv3_closed: "eventSource s = Some CLOSED \<Longrightarrow> inv3 s"
  by (simp add: inv3_def streaming_def)

lemma inv3_same:
  "inv3 s \<Longrightarrow> hasTerminal s' = hasTerminal s \<Longrightarrow>
   eventSource s' = eventSource s \<or> eventSource s' = Some CLOSED \<Longrightarrow> inv3 s'"
  by (auto simp: inv3_def streaming_def)

lemma inv3_stage: "inv3 s \<Longrightarrow> inv3 (stage d s)"
proof (rule stage_forms)
  assume i: "inv3 s"
  show "inv3 s" by (rule i)
  show "inv3 (markRealUpdate s)" by (rule inv3_same [OF i]) simp_all
  show "inv3 (pushUpdate a st m (markRealUpdate s))"
    if "\<not> terminalEntry \<lparr>agent = a, status = st, message = m, timestamp = 0\<rparr>" for a st m
    by (rule inv3_same [OF i]) (simp_all add: hasTerminal_pushUpdate_other [OF that])
  show "inv3 (close (setLoading False (pushUpdate a ''error'' m (markRealUpdate s))))" for a m
    by (rule inv3_closed) simp
  show "inv3 (handleFinalStatus fs d s)" for fs by (rule inv3_closed) simp
qed

lemma inv3_onmessage: "inv3 s \<Longrightarrow> inv3 (onmessage fr s)"
  by (rule onmessage_forms) (simp_all add: inv3_closed inv3_stage)

lemma inv3_dispatch:
  assumes i1: "inv1 s" and i: "inv3 s"
  shows "inv3 (dispatch e s)"
proof (cases e)
  case (MessageEvent fr)
  then show ?thesis using i by (simp add: inv3_onmessage)
next
  case ErrorEvent
  then show ?thesis using i by (simp add: onerror_def trigger_close_commute inv3_closed)
next
  case (TimerFires j)
  show ?thesis unfolding TimerFires
  proof (rule fire_cases)
    show "inv3 s" by (rule i)
    fix due cb rest assume t: "timers s = (due, cb) # rest"
    let ?s = "s\<lparr>timers := rest, clock := max (clock s) due\<rparr>"
    have s: "inv3 ?s" by (rule inv3_same [OF i]) (simp_all add: hasTerminal_def)
    show "inv3 (runCallback j cb ?s)"
    proof (cases cb)
      case Watchdog
      then show ?thesis using s by (simp add: watchdog_def inv3_closed)
    next
      case Simulate
      then show ?thesis using s by (simp add: inv3_def streaming_def)
    next
      case (Step a st m)
      with t i1 have "demoModeRef s" by (auto simp: inv1_def)
      with i1 have "eventSource s = Some CLOSED" by (simp add: inv1_def)
      then show ?thesis using Step by (intro inv3_closed) simp
    qed
  qed
next
  case (Elapse d)
  have "inv3 (s\<lparr>clock := c\<rparr>)" for c by (rule inv3_same [OF i]) (simp_all add: hasTerminal_def)
  then show ?thesis using Elapse by (simp split: list.splits prod.splits)
qed

lemma inv3_run: "inv1 s \<Longrightarrow> inv3 s \<Longrightarrow> inv3 (run evs s)"
  by (induction evs arbitrary: s) (simp_all add: inv1_dispatch inv3_dispatch)

lemma inv3_session: "inv3 (session f up)"
proof (cases "streaming (session f up)")
  case False
  then show ?thesis by (simp add: inv3_def)
next
  case True
  then obtain st eid where up: "up = Response True st (ExpenseId eid)"
    by (auto simp: session_def handleSubmit_def chooseFile_def mounted_def streaming_def
          Let_def uploadFailed_def split: upload.splits body.splits if_splits)
  let ?s1 = "(setDemoModeFlag False
      ((chooseFile (Some f) mounted)
         \<lparr>loading := True, updates := [], error := None, expenseId := None\<rparr>))
    \<lparr>hasRealUpdatesRef := False, emittedUpdatesRef := {}\<rparr>"
  let ?s2 = "pushUpdate ''System'' ''processing'' ''Uploading receipt to Cloud Storage...'' ?s1"
  let ?m = "check_mark @ '' Receipt uploaded! Expense ID: '' @ substring_to 8 eid @ ''...''"
  let ?s3 = "pushUpdate ''Orchestrator'' ''complete'' ?m (?s2\<lparr>expenseId := Some eid\<rparr>)"
  have e: "session f up = startRealTimeStream eid ?s3"
    unfolding up session_def handleSubmit_def by (simp add: chooseFile_def Let_def)
  have "\<not> hasTerminal ?s1" by (simp add: hasTerminal_def setDemoModeFlag_def)
  then have "\<not> hasTerminal ?s2"
    by (simp add: hasTerminal_pushUpdate_other terminalEntry_def)
  then have "\<not> hasTerminal (?s2\<lparr>expenseId := Some eid\<rparr>)" by (simp add: hasTerminal_def)
  then have "\<not> hasTerminal ?s3"
    by (simp add: hasTerminal_pushUpdate_other terminalEntry_def del: append.simps)
  then have "\<not> hasTerminal (session f up)"
    unfolding e by (simp add: startRealTimeStream_def hasTerminal_def)
  then show ?thesis by (simp add: inv3_def)
qed

lemma inv3_reachable: "inv3 (run evs (session f up))"
  by (rule inv3_run) (rule inv1_session, rule inv3_session)


section \<open>Firing every armed timer\<close>





lemma length_steps: "length (steps f j) = 10"
  by (simp add: steps_def)







lemma fire_idle: "timers s = [] \<Longrightarrow> dispatch (TimerFires j) s = s"
  by simp



lemma run_fire_idle: "timers s = [] \<Longrightarrow> run (replicate n (TimerFires j)) s = s"
  by (induction n) simp_all







section \<open>Stage failures\<close>

lemma onmessage_policy_check_failed:
  "d_status d = ''POLICY_CHECK_FAILED'' \<Longrightarrow> d_error d = None \<Longrightarrow>
   onmessage (Json d) s =
   close (setLoading False
     (pushUpdate ''Policy Agent'' ''error''
        (cross_mark @ '' Policy evaluation failed. Please try again.'') (markRealUpdate s)))"
  by (simp add: onmessage_def stage_def)

lemma onmessage_extraction_failed:
  "d_status d = ''EXTRACTION_FAILED'' \<Longrightarrow> d_error d = None \<Longrightarrow>
   onmessage (Json d) s =
   close (setLoading False
     (pushUpdate ''Extraction Agent'' ''error''
        (cross_mark @
         '' Extraction failed. Please verify the receipt image quality and retry.'')
        (markRealUpdate s)))"
  by (simp add: onmessage_def stage_def)

lemma onmessage_anomaly_check_failed:
  "d_status d = ''ANOMALY_CHECK_FAILED'' \<Longrightarrow> d_error d = None \<Longrightarrow>
   onmessage (Json d) s =
   pushUpdate ''Anomaly Agent'' ''error'' (cross_mark @ '' Anomaly detection failed.'')
     (markRealUpdate s)"
  by (simp add: onmessage_def stage_def)

text \<open>
  C3 (as amended). In a session whose stream is open, a \<open>POLICY_CHECK_FAILED\<close>
  frame appends exactly one error notification of the Policy Agent and completes
  the session: the stream is closed, loading is cleared, and every later frame
  is ignored. So does \<open>EXTRACTION_FAILED\<close>. Of the stage failures only
  \<open>ANOMALY_CHECK_FAILED\<close> leaves the stream open and the loading flag as it was.
\<close>

theorem policy_check_failed_completes:
  assumes "streaming (run evs (session f up))"
    and "d_status d = ''POLICY_CHECK_FAILED''" and "d_error d = None"
    and "d_status x = ''EXTRACTION_FAILED''" and "d_error x = None"
    and "d_status a = ''ANOMALY_CHECK_FAILED''" and "d_error a = None"
  shows "updates (dispatch (MessageEvent (Json d)) (run evs (session f up))) =
           updates (run evs (session f up)) @
           [\<lparr>agent = ''Policy Agent'', status = ''error'',
             message = cross_mark @ '' Policy evaluation failed. Please try again.'',
             timestamp = clock (run evs (session f up))\<rparr>] \<and>
         eventSource (dispatch (MessageEvent (Json d)) (run evs (session f up))) = Some CLOSED \<and>
         \<not> loading (dispatch (MessageEvent (Json d)) (run evs (session f up))) \<and>
         dispatch (MessageEvent fr) (dispatch (MessageEvent (Json d)) (run evs (session f up))) =
           dispatch (MessageEvent (Json d)) (run evs (session f up)) \<and>
         eventSource (dispatch (MessageEvent (Json x)) (run evs (session f up))) = Some CLOSED \<and>
         \<not> loading (dispatch (MessageEvent (Json x)) (run evs (session f up))) \<and>
         eventSource (dispatch (MessageEvent (Json a)) (run evs (session f up))) =
           eventSource (run evs (session f up)) \<and>
         loading (dispatch (MessageEvent (Json a)) (run evs (session f up))) =
           loading (run evs (session f up))"
proof -
  let ?s = "run evs (session f up)"
  let ?m = "cross_mark @ '' Policy evaluation failed. Please try again.''"
  let ?p = "dispatch (MessageEvent (Json d)) ?s"
  have l: "logInv (markRealUpdate ?s)" using inv2_logInv [OF inv2_reachable] by simp
  have "\<not> hasTerminal ?s" using inv3_reachable [of evs f up] assms(1) by (auto simp: inv3_def)
  then have n: "\<not> hasTerminal (markRealUpdate ?s)" by simp
  have p: "?p = close (setLoading False (pushUpdate ''Policy Agent'' ''error'' ?m (markRealUpdate ?s)))"
    using assms(1-3) by (simp add: onmessage_policy_check_failed)
  have "updates (pushUpdate ''Policy Agent'' ''error'' ?m (markRealUpdate ?s)) =
        updates (markRealUpdate ?s) @
        [\<lparr>agent = ''Policy Agent'', status = ''error'', message = ?m,
          timestamp = clock (markRealUpdate ?s)\<rparr>]"
    by (rule push_other [OF l _ n]) (simp_all add: wellNamed_def terminalEntry_def)
  then have u: "updates ?p = updates ?s @
      [\<lparr>agent = ''Policy Agent'', status = ''error'', message = ?m, timestamp = clock ?s\<rparr>]"
    unfolding p by simp
  have c: "eventSource ?p = Some CLOSED" "\<not> loading ?p" unfolding p by simp_all
  then have i: "dispatch (MessageEvent fr) ?p = ?p" by (simp add: streaming_def)
  have x: "eventSource (dispatch (MessageEvent (Json x)) ?s) = Some CLOSED"
      "\<not> loading (dispatch (MessageEvent (Json x)) ?s)"
    using assms(1,4,5) by (simp_all add: onmessage_extraction_failed)
  have a: "eventSource (dispatch (MessageEvent (Json a)) ?s) = eventSource ?s"
      "loading (dispatch (MessageEvent (Json a)) ?s) = loading ?s"
    using assms(1,6,7) by (simp_all add: onmessage_anomaly_check_failed)
  from u c i x a show ?thesis by simp
qed

lemma stagePayload_fields [simp]:
  "d_status (stagePayload st) = st"
  "d_error (stagePayload st) = None"
  "d_finalStatus (stagePayload st) = None"
  "d_findings (stagePayload st) = noFindings"
  by (simp_all add: stagePayload_def)

theorem policy_check_failed_completes_witness:
  "streaming (run [] (session receipt uploaded)) \<and>
   eventSource (dispatch (MessageEvent (Json (stagePayload ''POLICY_CHECK_FAILED'')))
      (run [] (session receipt uploaded))) = Some CLOSED \<and>
   \<not> loading (dispatch (MessageEvent (Json (stagePayload ''POLICY_CHECK_FAILED'')))
      (run [] (session receipt uploaded))) \<and>
   length (updates (dispatch (MessageEvent (Json (stagePayload ''POLICY_CHECK_FAILED'')))
      (run [] (session receipt uploaded)))) =
     Suc (length (updates (run [] (session receipt uploaded)))) \<and>
   eventSource (dispatch (MessageEvent (Json (stagePayload ''ANOMALY_CHECK_FAILED'')))
      (run [] (session receipt uploaded))) = Some CONNECTING"
proof -
  have h: "streaming (run [] (session receipt uploaded))"
    by (simp add: uploaded_def session_streaming)
  from policy_check_failed_completes [OF h, of "stagePayload ''POLICY_CHECK_FAILED''"
      "stagePayload ''EXTRACTION_FAILED''" "stagePayload ''ANOMALY_CHECK_FAILED''"] h
  show ?thesis by (simp add: uploaded_def session_streaming)
qed

text \<open>
  C3 as stated fails: after a \<open>POLICY_CHECK_FAILED\<close> frame the stream is closed
  and the page no longer loading, and a further stage frame changes nothing.
\<close>

theorem policy_check_failed_counterexample:
  "eventSource (run [MessageEvent (stageFrame ''POLICY_CHECK_FAILED'')]
      (session receipt uploaded)) = Some CLOSED \<and>
   \<not> loading (run [MessageEvent (stageFrame ''POLICY_CHECK_FAILED'')]
      (session receipt uploaded)) \<and>
   run [MessageEvent (stageFrame ''POLICY_CHECK_FAILED''), MessageEvent (stageFrame ''INGESTED'')]
      (session receipt uploaded) =
   run [MessageEvent (stageFrame ''POLICY_CHECK_FAILED'')] (session receipt uploaded)"
  by (simp add: uploaded_def session_streaming stageFrame_def onmessage_policy_check_failed
        streaming_def)

section \<open>A failed upload\<close>

lemma quiescent_state:
  assumes "timers s = []" "\<not> streaming s"
  shows "\<exists>c. dispatch e s = s\<lparr>clock := c\<rparr>"
proof (cases e)
  case (MessageEvent fr)
  with assms have "dispatch e s = s\<lparr>clock := clock s\<rparr>" by simp
  then show ?thesis by blast
next
  case ErrorEvent
  with assms have "dispatch e s = s\<lparr>clock := clock s\<rparr>" by simp
  then show ?thesis by blast
next
  case (TimerFires j)
  with assms have "dispatch e s = s\<lparr>clock := clock s\<rparr>" by simp
  then show ?thesis by blast
next
  case (Elapse d)
  with assms have "dispatch e s = s\<lparr>clock := clock s + d\<rparr>" by simp
  then show ?thesis by blast
qed

lemma quiescent_forever:
  "timers s = [] \<Longrightarrow> \<not> streaming s \<Longrightarrow> \<exists>c. run evs s = s\<lparr>clock := c\<rparr>"
proof (induction evs arbitrary: s)
  case Nil
  have "run [] s = s\<lparr>clock := clock s\<rparr>" by simp
  then show ?case by blast
next
  case (Cons e evs)
  from quiescent_state [OF Cons.prems, of e] obtain c where c: "dispatch e s = s\<lparr>clock := c\<rparr>"
    by blast
  have "timers (s\<lparr>clock := c\<rparr>) = []" "\<not> streaming (s\<lparr>clock := c\<rparr>)"
    using Cons.prems by (simp_all add: streaming_def)
  from Cons.IH [OF this] obtain c' where "run evs (s\<lparr>clock := c\<rparr>) = s\<lparr>clock := c'\<rparr>"
    by auto
  with c show ?case by auto
qed

text \<open>The page after a failed upload, in full: the \<^verbatim>\<open>catch\<close> block of
  \<^verbatim>\<open>handleSubmit\<close> has run and \<^verbatim>\<open>startRealTimeStream\<close> has not.\<close>

lemma session_upload_failed:
  assumes "up = FetchRejected e \<or> up = Response False statusText b"
  shows "\<exists>m. session f up =
     (chooseFile (Some f) mounted)
       \<lparr>error := Some m,
        emittedUpdatesRef :=
          {updateKey ''System'' ''processing'' ''Uploading receipt to Cloud Storage...'',
           updateKey ''System'' ''error'' (cross_mark @ '' '' @
             (case up of FetchRejected OtherValue \<Rightarrow> ''Unknown error'' | _ \<Rightarrow> m))},
        updates :=
          [\<lparr>agent = ''System'', status = ''processing'',
            message = ''Uploading receipt to Cloud Storage...'', timestamp = 0\<rparr>,
           \<lparr>agent = ''System'', status = ''error'',
            message = cross_mark @ '' '' @
              (case up of FetchRejected OtherValue \<Rightarrow> ''Unknown error'' | _ \<Rightarrow> m),
            timestamp = 0\<rparr>]\<rparr>"
  using assms
  by (cases e)
     (auto simp: session_def handleSubmit_def uploadFailed_def chooseFile_def mounted_def
        pushUpdate_def updateKey_def setDemoModeFlag_def setLoading_def Let_def)

text \<open>
  C9. When the upload request is rejected (a transport error) or answered with a
  status that is not a success, the session ends at once and for good: the page
  is not loading, an error is set, no \<^verbatim>\<open>EventSource\<close> is ever constructed and no
  timer armed, and the log holds the upload notice followed by exactly one
  error notification, whatever happens afterwards.
\<close>

theorem upload_failure_terminal:
  assumes "up = FetchRejected e \<or> up = Response False statusText b"
  shows "eventSource (run evs (session f up)) = None \<and>
         timers (run evs (session f up)) = [] \<and>
         \<not> loading (run evs (session f up)) \<and>
         error (run evs (session f up)) \<noteq> None \<and>
         map (\<lambda>u. (agent u, status u)) (updates (run evs (session f up))) =
           [(''System'', ''processing''), (''System'', ''error'')] \<and>
         length (filter (\<lambda>u. status u = ''error'') (updates (run evs (session f up)))) = 1"
proof -
  from session_upload_failed [OF assms, of f] obtain m u where
    s: "session f up = (chooseFile (Some f) mounted)
          \<lparr>error := Some m, emittedUpdatesRef := u,
           updates := [\<lparr>agent = ''System'', status = ''processing'',
              message = ''Uploading receipt to Cloud Storage...'', timestamp = 0\<rparr>,
             \<lparr>agent = ''System'', status = ''error'',
              message = cross_mark @ '' '' @
                (case up of FetchRejected OtherValue \<Rightarrow> ''Unknown error'' | _ \<Rightarrow> m),
              timestamp = 0\<rparr>]\<rparr>"
    by blast
  have q: "timers (session f up) = []" "\<not> streaming (session f up)"
    unfolding s by (simp_all add: chooseFile_def mounted_def streaming_def)
  from quiescent_forever [OF q, of evs] obtain c where
    "run evs (session f up) = (session f up)\<lparr>clock := c\<rparr>" by blast
  then show ?thesis unfolding s by (simp add: chooseFile_def mounted_def)
qed

theorem upload_failure_terminal_witness:
  "eventSource (run [ErrorEvent, TimerFires 0]
      (session receipt (Response False ''Internal Server Error'' (JsonRejected OtherValue)))) = None \<and>
   \<not> loading (run [ErrorEvent, TimerFires 0]
      (session receipt (Response False ''Internal Server Error'' (JsonRejected OtherValue)))) \<and>
   length (filter (\<lambda>u. status u = ''error'') (updates (run [ErrorEvent, TimerFires 0]
      (session receipt (Response False ''Internal Server Error'' (JsonRejected OtherValue)))))) = 1"
  using upload_failure_terminal [of "Response False ''Internal Server Error'' (JsonRejected OtherValue)"
      OtherValue "''Internal Server Error''" "JsonRejected OtherValue" "[ErrorEvent, TimerFires 0]" receipt]
  by simp

section \<open>The steps of the timeline\<close>

lemma steps_shape:
  "map (\<lambda>(a, st, m, d). (a, st, d)) (steps f j) =
     [(''Extraction Agent'', ''processing'', 1000), (''Extraction Agent'', ''complete'', 3500),
      (''Policy Agent'', ''processing'', 4500), (''Policy Agent'', ''complete'', 7000),
      (''Anomaly Agent'', ''processing'', 7500), (''Anomaly Agent'', ''complete'', 9000),
      (''Remediation Agent'', ''processing'', 9500), (''Remediation Agent'', ''complete'', 10500),
      (''Synthesis Agent'', ''processing'', 11000), (''Synthesis Agent'', ''complete'', 13000)]"
  by (simp add: steps_def)

lemma enqueue_last:
  "\<forall>t \<in> set ts. fst t \<le> fst x \<Longrightarrow> enqueue x ts = ts @ [x]"
  by (induction ts) auto

lemma fold_setTimeout_sorted:
  assumes "sorted (map (\<lambda>(a, st, m, d). d) xs)"
    and "\<forall>t \<in> set (timers s). \<forall>(a, st, m, d) \<in> set xs. fst t \<le> clock s + d"
  shows "timers (fold (\<lambda>(a, st, m, d). setTimeout (Step a st m) d) xs s) =
         timers s @ map (\<lambda>(a, st, m, d). (clock s + d, Step a st m)) xs"
  using assms
proof (induction xs arbitrary: s)
  case Nil
  show ?case by simp
next
  case (Cons x xs)
  obtain a st m d where x: "x = (a, st, m, d)" by (cases x)
  let ?s = "setTimeout (Step a st m) d s"
  have t: "timers ?s = timers s @ [(clock s + d, Step a st m)]"
    using Cons.prems(2) x by (simp add: setTimeout_def enqueue_last)
  have "timers (fold (\<lambda>(a, st, m, d). setTimeout (Step a st m) d) xs ?s) =
        timers ?s @ map (\<lambda>(a, st, m, d). (clock ?s + d, Step a st m)) xs"
  proof (rule Cons.IH)
    show "sorted (map (\<lambda>(a, st, m, d). d) xs)" using Cons.prems(1) by simp
    show "\<forall>t \<in> set (timers ?s). \<forall>(a, st, m, d) \<in> set xs. fst t \<le> clock ?s + d"
      using Cons.prems x unfolding t by (auto simp: case_prod_beta)
  qed
  then show ?case using x t by simp
qed

lemma steps_sorted: "sorted (map (\<lambda>(a, st, m, d). d) (steps f j))"
proof -
  have "map (\<lambda>(a, st, m, d). d) (steps f j) =
        map (\<lambda>(a, st, d). d) (map (\<lambda>(a, st, m, d). (a, st, d)) (steps f j))"
    by (simp add: case_prod_beta)
  then show ?thesis unfolding steps_shape by simp
qed

section \<open>The run of the fallback\<close>

lemma step_simps [simp]:
  "stepKind (a, st, m, d) = (a, st)"
  "stepTriple (a, st, m, d) = (a, st, m)"
  "stepArmed (a, st, m, d) = Step a st m"
  "stepKey (a, st, m, d) = updateKey a st m"
  "stepDelay (a, st, m, d) = d"
  "stepTimer t0 (a, st, m, d) = (t0 + d, Step a st m)"
  "stepEntry t0 (a, st, m, d) = \<lparr>agent = a, status = st, message = m, timestamp = t0 + d\<rparr>"
  by (simp_all add: stepKind_def stepTriple_def stepArmed_def stepKey_def stepDelay_def
        stepTimer_def stepEntry_def)

lemma triple_stepEntry [simp]: "triple (stepEntry t0 x) = stepTriple x"
  by (cases x) (simp add: triple_def)

lemma snd_stepTimer [simp]: "snd (stepTimer t0 x) = stepArmed x"
  by (cases x) simp

lemma fresh_key:
  assumes l: "logInv s" and w: "wellNamed a st"
    and n: "(a, st, m) \<notin> triple ` set (updates s)"
  shows "updateKey a st m \<notin> emittedUpdatesRef s"
proof
  assume "updateKey a st m \<in> emittedUpdatesRef s"
  with l obtain u where u: "u \<in> set (updates s)" "keyOf u = updateKey a st m"
    by (auto simp: logInv_def)
  from l u(1) have "wellNamed (agent u) (status u)" by (simp add: logInv_def)
  from updateKey_inj [OF this w] u(2) have "triple u = (a, st, m)"
    by (simp add: keyOf_def triple_def)
  with u(1) n show False by force
qed

lemma stepCallback_loading:
  "loading (stepCallback a st m s) =
     (loading s \<and> (a, st) \<noteq> (''Synthesis Agent'', ''complete''))"
  by (simp add: stepCallback_def Let_def)

text \<open>Firing the timers of a list of steps that were armed at \<open>t0\<close>: each firing
  appends the notification of its step, stamped with the step's due time, and
  the loading flag falls with the verdict of the Synthesis Agent.\<close>

lemma stepKey_distinct:
  assumes "wellNamed (fst x) (fst (snd x))" "wellNamed (fst y) (fst (snd y))"
    and "stepKind x \<noteq> stepKind y"
  shows "stepKey x \<noteq> stepKey y"
proof
  obtain a st m d where x: "x = (a, st, m, d)" by (cases x)
  obtain a' st' m' d' where y: "y = (a', st', m', d')" by (cases y)
  assume "stepKey x = stepKey y"
  then have "updateKey a st m = updateKey a' st' m'" using x y by simp
  from updateKey_inj [OF _ _ this] assms(1,2) x y have "a = a' \<and> st = st'" by simp
  with assms(3) x y show False by simp
qed

lemma run_steps_fresh:
  assumes "timers s = map (stepTimer t0) xs"
    and "distinct (map stepKind xs)"
    and "\<forall>x \<in> set xs. wellNamed (fst x) (fst (snd x))"
    and "\<forall>x \<in> set xs. stepKey x \<notin> emittedUpdatesRef s"
    and "sorted (map stepDelay xs)"
    and "\<forall>x \<in> set xs. clock s \<le> t0 + stepDelay x"
  shows "updates (run (replicate k (TimerFires j)) s) =
           updates s @ map (stepEntry t0) (take k xs) \<and>
         loading (run (replicate k (TimerFires j)) s) =
           (loading s \<and> (''Synthesis Agent'', ''complete'') \<notin> stepKind ` set (take k xs))"
  using assms
proof (induction xs arbitrary: s k)
  case Nil
  then have "timers s = []" by simp
  then show ?case by (simp add: run_fire_idle)
next
  case (Cons x xs)
  show ?case
  proof (cases k)
    case 0
    then show ?thesis by simp
  next
    case (Suc k')
    obtain a st m d where x: "x = (a, st, m, d)" by (cases x)
    let ?s0 = "s\<lparr>timers := map (stepTimer t0) xs, clock := max (clock s) (t0 + d)\<rparr>"
    let ?s1 = "stepCallback a st m ?s0"
    have f: "dispatch (TimerFires j) s = ?s1"
      using Cons.prems(1) x by simp
    have c: "clock ?s0 = t0 + d" using Cons.prems(6) x by (simp add: max_def)
    have fresh: "updateKey a st m \<notin> emittedUpdatesRef ?s0" using Cons.prems(4) x by simp
    have u: "updates ?s1 = updates s @ [stepEntry t0 x]"
      using fresh c x by (simp add: updates_pushUpdate)
    have e: "emittedUpdatesRef ?s1 = insert (stepKey x) (emittedUpdatesRef s)"
      using x by (simp add: emitted_pushUpdate)
    have ld: "loading ?s1 = (loading s \<and> stepKind x \<noteq> (''Synthesis Agent'', ''complete''))"
      using x by (simp add: stepCallback_loading)
    have "updates (run (replicate k' (TimerFires j)) ?s1) =
            updates ?s1 @ map (stepEntry t0) (take k' xs) \<and>
          loading (run (replicate k' (TimerFires j)) ?s1) =
            (loading ?s1 \<and> (''Synthesis Agent'', ''complete'') \<notin> stepKind ` set (take k' xs))"
    proof (rule Cons.IH)
      show "timers ?s1 = map (stepTimer t0) xs" by simp
      show "distinct (map stepKind xs)" using Cons.prems(2) by simp
      show "\<forall>x \<in> set xs. wellNamed (fst x) (fst (snd x))" using Cons.prems(3) by simp
      show "\<forall>y \<in> set xs. stepKey y \<notin> emittedUpdatesRef ?s1"
      proof
        fix y assume y: "y \<in> set xs"
        from Cons.prems(2) have "stepKind x \<notin> stepKind ` set xs" by simp
        with y have "stepKind y \<noteq> stepKind x" by (metis imageI)
        with Cons.prems(3) y have "stepKey y \<noteq> stepKey x"
          by (intro stepKey_distinct) simp_all
        with Cons.prems(4) y show "stepKey y \<notin> emittedUpdatesRef ?s1" unfolding e by simp
      qed
      show "sorted (map stepDelay xs)" using Cons.prems(5) by simp
      show "\<forall>x \<in> set xs. clock ?s1 \<le> t0 + stepDelay x"
        using Cons.prems(5) x c by auto
    qed
    then show ?thesis unfolding Suc using f u ld x by auto
  qed
qed

lemma run_steps:
  assumes "logInv s"
    and "timers s = map (stepTimer t0) xs"
    and "distinct (map stepKind xs)"
    and "\<forall>x \<in> set xs. wellNamed (fst x) (fst (snd x)) \<and>
           stepKind x \<notin> (\<lambda>u. (agent u, status u)) ` set (updates s)"
    and "sorted (map stepDelay xs)"
    and "\<forall>x \<in> set xs. clock s \<le> t0 + stepDelay x"
  shows "updates (run (replicate k (TimerFires j)) s) =
           updates s @ map (stepEntry t0) (take k xs) \<and>
         loading (run (replicate k (TimerFires j)) s) =
           (loading s \<and> (''Synthesis Agent'', ''complete'') \<notin> stepKind ` set (take k xs))"
proof (rule run_steps_fresh)
  show "\<forall>x \<in> set xs. stepKey x \<notin> emittedUpdatesRef s"
  proof
    fix x assume x: "x \<in> set xs"
    obtain a st m d where e: "x = (a, st, m, d)" by (cases x)
    from assms(4) x e have "wellNamed a st"
      "(a, st, m) \<notin> triple ` set (updates s)"
      by (force simp: triple_def)+
    with assms(1) have "updateKey a st m \<notin> emittedUpdatesRef s" by (intro fresh_key)
    with e show "stepKey x \<notin> emittedUpdatesRef s" by simp
  qed
qed (use assms in simp_all)

lemma stepTimer_eq: "(\<lambda>(a, st, m, d). (t0 + d, Step a st m)) = stepTimer t0"
  by (rule ext) (simp add: stepTimer_def)

lemma stepDelay_eq: "(\<lambda>(a, st, m, d). d) = stepDelay"
  by (rule ext) (simp add: stepDelay_def)

lemma stepKinds:
  "map stepKind (steps f j) =
     [(''Extraction Agent'', ''processing''), (''Extraction Agent'', ''complete''),
      (''Policy Agent'', ''processing''), (''Policy Agent'', ''complete''),
      (''Anomaly Agent'', ''processing''), (''Anomaly Agent'', ''complete''),
      (''Remediation Agent'', ''processing''), (''Remediation Agent'', ''complete''),
      (''Synthesis Agent'', ''processing''), (''Synthesis Agent'', ''complete'')]"
  by (simp add: steps_def)

lemma distinct_stepKinds: "distinct (map stepKind (steps f j))"
  unfolding stepKinds by simp

lemma verdict_position:
  "(''Synthesis Agent'', ''complete'') \<in> stepKind ` set (take k (steps f j)) \<longleftrightarrow> 10 \<le> k"
proof -
  have e: "stepKind ` set (take k (steps f j)) = set (take k (map stepKind (steps f j)))"
    by (simp add: take_map)
  show ?thesis
  proof (cases "10 \<le> k")
    case True
    then have "take k (map stepKind (steps f j)) = map stepKind (steps f j)"
      by (simp add: length_steps)
    then show ?thesis unfolding e using True by (simp add: stepKinds)
  next
    case False
    then have "k \<le> 9" by simp
    then have "set (take k (map stepKind (steps f j))) \<subseteq> set (take 9 (map stepKind (steps f j)))"
      by (rule set_take_subset_set_take)
    moreover have "(''Synthesis Agent'', ''complete'') \<notin> set (take 9 (map stepKind (steps f j)))"
      unfolding stepKinds by simp
    ultimately show ?thesis unfolding e using False by auto
  qed
qed

lemma session_file: "file' (session f (Response True st (ExpenseId eid))) = Some f"
  by (simp add: session_def handleSubmit_def startRealTimeStream_def chooseFile_def
        mounted_def setTimeout_def setDemoModeFlag_def Let_def)

lemma session_kinds:
  "(\<lambda>u. (agent u, status u)) ` set (updates (session f (Response True st (ExpenseId eid)))) \<subseteq>
     {(''System'', ''processing''), (''Orchestrator'', ''complete'')}"
  by (auto simp: session_def handleSubmit_def startRealTimeStream_def chooseFile_def
        mounted_def setTimeout_def setDemoModeFlag_def Let_def updates_pushUpdate
        split: if_splits)


lemma file_fields [simp]:
  "file' (close s) = file' s"
  "file' (setLoading v s) = file' s"
  "file' (setDemoModeFlag v s) = file' s"
  "file' (markRealUpdate s) = file' s"
  by (simp_all add: close_def setLoading_def setDemoModeFlag_def markRealUpdate_def)

lemma session_log:
  "updates (session f (Response True st (ExpenseId eid))) =
     [\<lparr>agent = ''System'', status = ''processing'',
       message = ''Uploading receipt to Cloud Storage...'', timestamp = 0\<rparr>,
      \<lparr>agent = ''Orchestrator'', status = ''complete'',
       message = check_mark @ '' Receipt uploaded! Expense ID: '' @ substring_to 8 eid @ ''...'',
       timestamp = 0\<rparr>]"
  by (simp add: session_def handleSubmit_def startRealTimeStream_def chooseFile_def
        mounted_def setTimeout_def setDemoModeFlag_def Let_def updates_pushUpdate
        emitted_pushUpdate updateKey_def)

lemma fire_head:
  "timers s = (due, cb) # rest \<Longrightarrow>
   dispatch (TimerFires j) s = runCallback j cb (s\<lparr>timers := rest, clock := max (clock s) due\<rparr>)"
  by simp

text \<open>A session whose stream stays silent: the watchdog fires and triggers the
  fallback, and the \<open>Simulate\<close> timer then arms the steps.\<close>

lemma silent_watchdog:
  "dispatch (TimerFires i) (session f (Response True st (ExpenseId eid))) =
     close (setTimeout Simulate 500
       (pushUpdate ''System'' ''processing''
          (stopwatch @ '' Agents taking longer than expected. Showing preview while we wait.'')
          (setDemoModeFlag True
             ((session f (Response True st (ExpenseId eid)))\<lparr>timers := [], clock := 30000\<rparr>))))"
  by (simp add: session_streaming watchdog_def triggerDemoMode_def)

lemma silent_watchdog_fields:
  "timers (dispatch (TimerFires i) (session f (Response True st (ExpenseId eid)))) =
     [(30500, Simulate)]"
  "clock (dispatch (TimerFires i) (session f (Response True st (ExpenseId eid)))) = 30000"
  "loading (dispatch (TimerFires i) (session f (Response True st (ExpenseId eid))))"
  "file' (dispatch (TimerFires i) (session f (Response True st (ExpenseId eid)))) = Some f"
  "eventSource (dispatch (TimerFires i) (session f (Response True st (ExpenseId eid)))) =
     Some CLOSED"
  "demoModeRef (dispatch (TimerFires i) (session f (Response True st (ExpenseId eid))))"
  "\<not> hasRealUpdatesRef (dispatch (TimerFires i) (session f (Response True st (ExpenseId eid))))"
  unfolding silent_watchdog
  by (simp_all add: setTimeout_def session_streaming session_file)

lemma silent_watchdog_log:
  "updates (dispatch (TimerFires i) (session f (Response True st (ExpenseId eid)))) =
     updates (session f (Response True st (ExpenseId eid))) @
     [\<lparr>agent = ''System'', status = ''processing'',
       message = stopwatch @
         '' Agents taking longer than expected. Showing preview while we wait.'',
       timestamp = 30000\<rparr>]"
proof -
  let ?s0 = "session f (Response True st (ExpenseId eid))"
  let ?m = "stopwatch @ '' Agents taking longer than expected. Showing preview while we wait.''"
  let ?d = "setDemoModeFlag True (?s0\<lparr>timers := [], clock := 30000\<rparr>)"
  have "logInv ?s0" using inv2_session by (rule inv2_logInv)
  then have l: "logInv ?d" by (simp add: logInv_def)
  have "(''System'', ''processing'', ?m) \<notin> triple ` set (updates ?d)"
    by (simp add: session_log triple_def stopwatch_def)
  with l have "updateKey ''System'' ''processing'' ?m \<notin> emittedUpdatesRef ?d"
    by (intro fresh_key) (simp_all add: wellNamed_def)
  then show ?thesis unfolding silent_watchdog by (simp add: updates_pushUpdate)
qed


lemma silent_simulate:
  "run [TimerFires i, TimerFires j] (session f (Response True st (ExpenseId eid))) =
     simulateAgentUpdates j
       ((dispatch (TimerFires i) (session f (Response True st (ExpenseId eid))))
          \<lparr>timers := [], clock := 30500\<rparr>)"
proof -
  let ?w = "dispatch (TimerFires i) (session f (Response True st (ExpenseId eid)))"
  have "run [TimerFires i, TimerFires j] (session f (Response True st (ExpenseId eid))) =
        dispatch (TimerFires j) ?w"
    by (simp del: dispatch.simps)
  also have "\<dots> = runCallback j Simulate (?w\<lparr>timers := [], clock := max (clock ?w) 30500\<rparr>)"
    by (rule fire_head) (rule silent_watchdog_fields)
  also have "max (clock ?w) 30500 = 30500" unfolding silent_watchdog_fields by simp
  finally show ?thesis by (simp del: dispatch.simps)
qed

lemma silent_fallback:
  "timers (run [TimerFires i, TimerFires j] (session f (Response True st (ExpenseId eid)))) =
     map (stepTimer 30500) (steps (Some f) j)"
  "updates (run [TimerFires i, TimerFires j] (session f (Response True st (ExpenseId eid)))) =
     updates (session f (Response True st (ExpenseId eid))) @
     [\<lparr>agent = ''System'', status = ''processing'',
       message = stopwatch @
         '' Agents taking longer than expected. Showing preview while we wait.'',
       timestamp = 30000\<rparr>]"
  "clock (run [TimerFires i, TimerFires j] (session f (Response True st (ExpenseId eid)))) =
     30500"
  "loading (run [TimerFires i, TimerFires j] (session f (Response True st (ExpenseId eid))))"
  "eventSource (run [TimerFires i, TimerFires j] (session f (Response True st (ExpenseId eid)))) =
     Some CLOSED"
proof -
  let ?w = "dispatch (TimerFires i) (session f (Response True st (ExpenseId eid)))"
  let ?b = "?w\<lparr>timers := [], clock := 30500\<rparr>"
  have "timers (simulateAgentUpdates j ?b) =
        timers ?b @ map (\<lambda>(a, st, m, d). (clock ?b + d, Step a st m)) (steps (file' ?b) j)"
    unfolding simulateAgentUpdates_def
    by (rule fold_setTimeout_sorted) (simp_all add: steps_sorted)
  then show "timers (run [TimerFires i, TimerFires j]
      (session f (Response True st (ExpenseId eid)))) = map (stepTimer 30500) (steps (Some f) j)"
    unfolding silent_simulate by (simp add: silent_watchdog_fields stepTimer_eq del: dispatch.simps)
  show "updates (run [TimerFires i, TimerFires j]
      (session f (Response True st (ExpenseId eid)))) =
     updates (session f (Response True st (ExpenseId eid))) @
     [\<lparr>agent = ''System'', status = ''processing'',
       message = stopwatch @
         '' Agents taking longer than expected. Showing preview while we wait.'',
       timestamp = 30000\<rparr>]"
    unfolding silent_simulate by (simp add: silent_watchdog_log del: dispatch.simps)
  show "clock (run [TimerFires i, TimerFires j]
      (session f (Response True st (ExpenseId eid)))) = 30500"
    unfolding silent_simulate by (simp del: dispatch.simps)
  show "loading (run [TimerFires i, TimerFires j]
      (session f (Response True st (ExpenseId eid))))"
    unfolding silent_simulate by (simp add: silent_watchdog_fields del: dispatch.simps)
  show "eventSource (run [TimerFires i, TimerFires j]
      (session f (Response True st (ExpenseId eid)))) = Some CLOSED"
    unfolding silent_simulate by (simp add: silent_watchdog_fields del: dispatch.simps)
qed

text \<open>The steps then fire one by one.\<close>

lemma silent_steps:
  "updates (run (replicate k (TimerFires j'))
      (run [TimerFires i, TimerFires j] (session f (Response True st (ExpenseId eid))))) =
     updates (run [TimerFires i, TimerFires j] (session f (Response True st (ExpenseId eid)))) @
     map (stepEntry 30500) (take k (steps (Some f) j)) \<and>
   loading (run (replicate k (TimerFires j'))
      (run [TimerFires i, TimerFires j] (session f (Response True st (ExpenseId eid))))) =
     (k < 10)"
proof -
  let ?s0 = "session f (Response True st (ExpenseId eid))"
  let ?b = "run [TimerFires i, TimerFires j] ?s0"
  have l: "logInv ?b" using inv2_reachable by (rule inv2_logInv)
  have k: "(\<lambda>u. (agent u, status u)) ` set (updates ?b) \<subseteq>
      {(''System'', ''processing''), (''Orchestrator'', ''complete'')}"
    unfolding silent_fallback using session_kinds [of f st eid]
    by (simp del: run.simps dispatch.simps)
  have n: "wellNamed (fst x) (fst (snd x)) \<and>
      stepKind x \<notin> (\<lambda>u. (agent u, status u)) ` set (updates ?b)"
    if x: "x \<in> set (steps (Some f) j)" for x
  proof -
    obtain a s m d where e: "x = (a, s, m, d)" by (cases x)
    from x have "stepKind x \<in> set (map stepKind (steps (Some f) j))" by simp
    then have "stepKind x \<notin> {(''System'', ''processing''), (''Orchestrator'', ''complete'')}"
      unfolding stepKinds by auto
    with k have "stepKind x \<notin> (\<lambda>u. (agent u, status u)) ` set (updates ?b)" by blast
    moreover from x e have "wellNamed (fst x) (fst (snd x))" by (simp add: steps_wellNamed)
    ultimately show ?thesis by simp
  qed
  have "updates (run (replicate k (TimerFires j')) ?b) =
          updates ?b @ map (stepEntry 30500) (take k (steps (Some f) j)) \<and>
        loading (run (replicate k (TimerFires j')) ?b) =
          (loading ?b \<and>
           (''Synthesis Agent'', ''complete'') \<notin> stepKind ` set (take k (steps (Some f) j)))"
  proof (rule run_steps)
    show "logInv ?b" by (rule l)
    show "timers ?b = map (stepTimer 30500) (steps (Some f) j)" by (rule silent_fallback)
    show "distinct (map stepKind (steps (Some f) j))" by (rule distinct_stepKinds)
    show "\<forall>x \<in> set (steps (Some f) j). wellNamed (fst x) (fst (snd x)) \<and>
        stepKind x \<notin> (\<lambda>u. (agent u, status u)) ` set (updates ?b)"
      using n by blast
    show "sorted (map stepDelay (steps (Some f) j))"
      using steps_sorted [of "Some f" j] by (simp add: stepDelay_eq)
    show "\<forall>x \<in> set (steps (Some f) j). clock ?b \<le> 30500 + stepDelay x"
      unfolding silent_fallback by (simp del: run.simps dispatch.simps)
  qed
  then show ?thesis
    unfolding verdict_position using silent_fallback(4) [of i j f st eid]
    by (simp del: run.simps dispatch.simps add: not_le)
qed


lemma silent_drain:
  "drain j (session f (Response True st (ExpenseId eid))) =
     run (replicate 11 (TimerFires j))
       (run [TimerFires j, TimerFires j] (session f (Response True st (ExpenseId eid))))"
proof -
  have "timerWeight (session f (Response True st (ExpenseId eid))) = 2 + 11"
    by (simp add: timerWeight_def session_streaming)
  then have "drain j (session f (Response True st (ExpenseId eid))) =
      run (replicate 2 (TimerFires j) @ replicate 11 (TimerFires j))
        (session f (Response True st (ExpenseId eid)))"
    unfolding drain_def by (simp only: replicate_add)
  also have "replicate 2 (TimerFires j) = [TimerFires j, TimerFires j]"
    by (simp add: numeral_2_eq_2)
  finally show ?thesis by (simp only: run_append)
qed



section \<open>Resolution by the watchdog\<close>





section \<open>At most one start of the fallback\<close>

text \<open>An explicit error of the backend on a fresh stream: the notification is
  logged, loading is cleared and the stream closed, and the session is not
  marked live.\<close>

lemma explicit_error_frame:
  "dispatch (MessageEvent (Json stageWithError)) (session receipt uploaded) =
     close (setLoading False
       (pushUpdate ''System'' ''error'' (cross_mark @ '' boom'') (session receipt uploaded)))"
  by (simp add: uploaded_def session_streaming onmessage_def stageWithError_def)

lemma explicit_error_log:
  "updates (dispatch (MessageEvent (Json stageWithError)) (session receipt uploaded)) =
     updates (session receipt uploaded) @
     [\<lparr>agent = ''System'', status = ''error'', message = cross_mark @ '' boom'',
       timestamp = 0\<rparr>]"
proof -
  have "logInv (session receipt uploaded)" using inv2_session by (rule inv2_logInv)
  moreover have "(''System'', ''error'', cross_mark @ '' boom'') \<notin>
      triple ` set (updates (session receipt uploaded))"
    by (simp add: uploaded_def session_log triple_def)
  ultimately have "updateKey ''System'' ''error'' (cross_mark @ '' boom'') \<notin>
      emittedUpdatesRef (session receipt uploaded)"
    by (intro fresh_key) (simp_all add: wellNamed_def)
  then show ?thesis
    unfolding explicit_error_frame
    by (simp add: updates_pushUpdate uploaded_def session_streaming)
qed

text \<open>
  C5. Along every run of a session, whatever frames (stalls among them),
  connection errors and timers occur and in whatever order, the fallback
  generator \<^verbatim>\<open>simulateAgentUpdates\<close> is started at most once. It is never started
  from a state in which the session is marked live; and it is never started
  after a frame of the stream, other than the stall signal \<open>TIMEOUT\<close> itself, has
  appended a notification to the log, be it a stage, a verdict or an explicit
  error of the backend.
\<close>

theorem single_fallback_start:
  "demoStarts evs (session f up) \<le> 1 \<and>
   (hasRealUpdatesRef (run evs (session f up)) \<longrightarrow>
      demoStarts evs' (run evs (session f up)) = 0) \<and>
   (d_status d \<noteq> ''TIMEOUT'' \<and>
    updates (dispatch (MessageEvent (Json d)) (run evs (session f up))) \<noteq>
      updates (run evs (session f up)) \<longrightarrow>
      demoStarts evs' (dispatch (MessageEvent (Json d)) (run evs (session f up))) = 0)"
proof -
  let ?s = "run evs (session f up)"
  let ?r = "dispatch (MessageEvent (Json d)) ?s"
  have i: "inv1 ?s" by (rule inv1_reachable)
  have "demoStarts evs (session f up) \<le> 1"
    using demoStarts_budget [of evs "session f up"] by (simp add: budget_session)
  moreover have "demoStarts evs' ?s = 0" if "hasRealUpdatesRef ?s"
    using demoStarts_budget [of evs' ?s] budget_spent [OF i] that by simp
  moreover have "demoStarts evs' ?r = 0"
    if h: "d_status d \<noteq> ''TIMEOUT'' \<and> updates ?r \<noteq> updates ?s"
  proof -
    from h have o: "streaming ?s" by (cases "streaming ?s") simp_all
    then have e: "?r = onmessage (Json d) ?s" by simp
    from h have "hasRealUpdatesRef ?r \<or> (eventSource ?r = Some CLOSED \<and> \<not> demoModeRef ?r)"
      unfolding e by (intro recorded_frame [OF i o]) simp_all
    moreover have "inv1 ?r" using i by (rule inv1_dispatch)
    ultimately have "budget ?r = 0" by (intro budget_spent)
    with demoStarts_budget [of evs' ?r] show ?thesis by simp
  qed
  ultimately show ?thesis by blast
qed

theorem single_fallback_start_witness:
  "hasRealUpdatesRef (run [MessageEvent (stageFrame ''INGESTED'')] (session receipt uploaded)) \<and>
   demoStarts [MessageEvent (stageFrame ''TIMEOUT''), ErrorEvent, TimerFires 0, TimerFires 0]
     (run [MessageEvent (stageFrame ''INGESTED'')] (session receipt uploaded)) = 0 \<and>
   d_status stageWithError \<noteq> ''TIMEOUT'' \<and>
   updates (dispatch (MessageEvent (Json stageWithError)) (run [] (session receipt uploaded))) \<noteq>
     updates (run [] (session receipt uploaded)) \<and>
   \<not> hasRealUpdatesRef
      (dispatch (MessageEvent (Json stageWithError)) (run [] (session receipt uploaded))) \<and>
   demoStarts [ErrorEvent, TimerFires 0, TimerFires 0]
     (dispatch (MessageEvent (Json stageWithError)) (run [] (session receipt uploaded))) = 0"
proof -
  have h: "hasRealUpdatesRef (run [MessageEvent (stageFrame ''INGESTED'')] (session receipt uploaded))"
    by (simp add: uploaded_def session_streaming onmessage_ingested)
  have "d_status stageWithError \<noteq> ''TIMEOUT''" by (simp add: stageWithError_def)
  moreover have "updates (dispatch (MessageEvent (Json stageWithError))
      (run [] (session receipt uploaded))) \<noteq> updates (run [] (session receipt uploaded))"
    by (simp add: explicit_error_log del: dispatch.simps)
  ultimately have g: "d_status stageWithError \<noteq> ''TIMEOUT'' \<and>
      updates (dispatch (MessageEvent (Json stageWithError)) (run [] (session receipt uploaded))) \<noteq>
        updates (run [] (session receipt uploaded))"
    by (rule conjI)
  have n: "\<not> hasRealUpdatesRef
      (dispatch (MessageEvent (Json stageWithError)) (run [] (session receipt uploaded)))"
    unfolding run.simps explicit_error_frame by (simp add: uploaded_def session_streaming)
  note a = single_fallback_start [of "[MessageEvent (stageFrame ''INGESTED'')]" receipt uploaded
      "[MessageEvent (stageFrame ''TIMEOUT''), ErrorEvent, TimerFires 0, TimerFires 0]"]
  note b = single_fallback_start [of "[]" receipt uploaded
      "[ErrorEvent, TimerFires 0, TimerFires 0]" stageWithError]
  from a h have "demoStarts [MessageEvent (stageFrame ''TIMEOUT''), ErrorEvent, TimerFires 0,
      TimerFires 0] (run [MessageEvent (stageFrame ''INGESTED'')] (session receipt uploaded)) = 0"
    by blast
  moreover from b g have "demoStarts [ErrorEvent, TimerFires 0, TimerFires 0]
      (dispatch (MessageEvent (Json stageWithError)) (run [] (session receipt uploaded))) = 0"
    by blast
  ultimately show ?thesis using h g n by blast
qed


section \<open>The timeline of the fallback\<close>

text \<open>The generator started in a state with no timer armed and none of its
  notifications logged yet.\<close>

lemma generator_run:
  assumes "timers s = []"
    and "\<forall>x \<in> set (steps (file' s) j). stepKey x \<notin> emittedUpdatesRef s"
  shows "updates (run (replicate k (TimerFires j')) (simulateAgentUpdates j s)) =
           updates s @ map (stepEntry (clock s)) (take k (steps (file' s) j)) \<and>
         loading (run (replicate k (TimerFires j')) (simulateAgentUpdates j s)) =
           (loading s \<and> k < 10)"
proof -
  let ?g = "simulateAgentUpdates j s"
  have "timers ?g = timers s @
      map (\<lambda>(a, st, m, d). (clock s + d, Step a st m)) (steps (file' s) j)"
    unfolding simulateAgentUpdates_def
    by (rule fold_setTimeout_sorted) (simp_all add: steps_sorted assms(1))
  then have t: "timers ?g = map (stepTimer (clock s)) (steps (file' s) j)"
    using assms(1) by (simp add: stepTimer_eq)
  have "updates (run (replicate k (TimerFires j')) ?g) =
          updates ?g @ map (stepEntry (clock s)) (take k (steps (file' s) j)) \<and>
        loading (run (replicate k (TimerFires j')) ?g) =
          (loading ?g \<and>
           (''Synthesis Agent'', ''complete'') \<notin> stepKind ` set (take k (steps (file' s) j)))"
  proof (rule run_steps_fresh)
    show "timers ?g = map (stepTimer (clock s)) (steps (file' s) j)" by (rule t)
    show "distinct (map stepKind (steps (file' s) j))" by (rule distinct_stepKinds)
    show "\<forall>x \<in> set (steps (file' s) j). wellNamed (fst x) (fst (snd x))"
    proof
      fix x assume x: "x \<in> set (steps (file' s) j)"
      obtain a st m d where "x = (a, st, m, d)" by (cases x)
      with x show "wellNamed (fst x) (fst (snd x))" by (simp add: steps_wellNamed)
    qed
    show "\<forall>x \<in> set (steps (file' s) j). stepKey x \<notin> emittedUpdatesRef ?g"
      using assms(2) by simp
    show "sorted (map stepDelay (steps (file' s) j))"
      using steps_sorted [of "file' s" j] by (simp add: stepDelay_eq)
    show "\<forall>x \<in> set (steps (file' s) j). clock ?g \<le> clock s + stepDelay x" by simp
  qed
  then show ?thesis unfolding verdict_position by (simp add: not_le)
qed

text \<open>
  C6 (as amended). The fallback generator emits ten steps, not nine: the nine of
  the claim and, before the last, a processing step of the Synthesis Agent.
  Their agents, statuses and offsets (1 to 13 seconds after the start) are
  fixed; started with no timer armed, the generator arms exactly these, each at
  its offset from now; and of the ten callbacks only the last clears the loading
  flag. When it is started with no timer armed and none of its notifications
  logged yet, then after \<open>k\<close> firings the log has grown by the notifications of
  the first \<open>k\<close> steps, in order, and the loading flag is as it was until the
  tenth has fired. So it is in a session whose stream stays silent: the
  watchdog and the start of the generator leave exactly the ten step timers
  armed, and the page is loading as long as fewer than ten have fired.
\<close>

theorem fallback_timeline:
  "map (\<lambda>(a, st, m, d). (a, st, d)) (steps f j) =
     [(''Extraction Agent'', ''processing'', 1000), (''Extraction Agent'', ''complete'', 3500),
      (''Policy Agent'', ''processing'', 4500), (''Policy Agent'', ''complete'', 7000),
      (''Anomaly Agent'', ''processing'', 7500), (''Anomaly Agent'', ''complete'', 9000),
      (''Remediation Agent'', ''processing'', 9500), (''Remediation Agent'', ''complete'', 10500),
      (''Synthesis Agent'', ''processing'', 11000), (''Synthesis Agent'', ''complete'', 13000)] \<and>
   timers (simulateAgentUpdates j (s\<lparr>timers := []\<rparr>)) =
     map (\<lambda>(a, st, m, d). (clock s + d, Step a st m)) (steps (file' s) j) \<and>
   map (\<lambda>(a, st, m, d). loading (stepCallback a st m s)) (steps f j) =
     replicate 9 (loading s) @ [False] \<and>
   (timers s = [] \<and> (\<forall>x \<in> set (steps (file' s) j). stepKey x \<notin> emittedUpdatesRef s) \<longrightarrow>
      map triple (updates (run (replicate k (TimerFires j')) (simulateAgentUpdates j s))) =
        map triple (updates s) @ map stepTriple (take k (steps (file' s) j)) \<and>
      loading (run (replicate k (TimerFires j')) (simulateAgentUpdates j s)) =
        (loading s \<and> k < 10)) \<and>
   map snd
     (timers (run [TimerFires i, TimerFires j] (session x (Response True st (ExpenseId eid))))) =
     map stepArmed (steps (Some x) j) \<and>
   map triple (updates (run (replicate k (TimerFires j'))
      (run [TimerFires i, TimerFires j] (session x (Response True st (ExpenseId eid)))))) =
     map triple
       (updates (run [TimerFires i, TimerFires j] (session x (Response True st (ExpenseId eid))))) @
     map stepTriple (take k (steps (Some x) j)) \<and>
   loading (run (replicate k (TimerFires j'))
      (run [TimerFires i, TimerFires j] (session x (Response True st (ExpenseId eid))))) =
     (k < 10)"
proof -
  have "timers (simulateAgentUpdates j (s\<lparr>timers := []\<rparr>)) =
        timers (s\<lparr>timers := []\<rparr>) @
        map (\<lambda>(a, st, m, d). (clock (s\<lparr>timers := []\<rparr>) + d, Step a st m))
          (steps (file' (s\<lparr>timers := []\<rparr>)) j)"
    unfolding simulateAgentUpdates_def by (rule fold_setTimeout_sorted) (simp_all add: steps_sorted)
  then have a: "timers (simulateAgentUpdates j (s\<lparr>timers := []\<rparr>)) =
     map (\<lambda>(a, st, m, d). (clock s + d, Step a st m)) (steps (file' s) j)"
    by simp
  have "map (\<lambda>(a, st, m, d). loading (stepCallback a st m s)) (steps f j) =
        map (\<lambda>(a, st, d). loading s \<and> \<not> (a = ''Synthesis Agent'' \<and> st = ''complete''))
          (map (\<lambda>(a, st, m, d). (a, st, d)) (steps f j))"
    by (auto simp: case_prod_beta stepCallback_def Let_def)
  moreover have "replicate 9 (loading s) =
      [loading s, loading s, loading s, loading s, loading s, loading s, loading s, loading s,
       loading s]"
    by (simp add: numeral_eq_Suc)
  ultimately have b: "map (\<lambda>(a, st, m, d). loading (stepCallback a st m s)) (steps f j) =
     replicate 9 (loading s) @ [False]"
    unfolding steps_shape by simp
  have g: "timers s = [] \<and> (\<forall>x \<in> set (steps (file' s) j). stepKey x \<notin> emittedUpdatesRef s) \<longrightarrow>
      map triple (updates (run (replicate k (TimerFires j')) (simulateAgentUpdates j s))) =
        map triple (updates s) @ map stepTriple (take k (steps (file' s) j)) \<and>
      loading (run (replicate k (TimerFires j')) (simulateAgentUpdates j s)) =
        (loading s \<and> k < 10)"
    using generator_run [of s j k j'] by (simp del: run.simps dispatch.simps)
  have c: "map snd (timers (run [TimerFires i, TimerFires j]
        (session x (Response True st (ExpenseId eid))))) = map stepArmed (steps (Some x) j)"
    unfolding silent_fallback(1) by simp
  have d: "map triple (updates (run (replicate k (TimerFires j'))
        (run [TimerFires i, TimerFires j] (session x (Response True st (ExpenseId eid)))))) =
      map triple
        (updates (run [TimerFires i, TimerFires j]
           (session x (Response True st (ExpenseId eid))))) @
      map stepTriple (take k (steps (Some x) j))"
    unfolding silent_steps [of k j' i j x st eid, THEN conjunct1] by simp
  note e = silent_steps [of k j' i j x st eid, THEN conjunct2]
  from steps_shape [of f j] a b g c d e show ?thesis
    by (intro conjI) (elim conjE | assumption)+
qed

theorem fallback_timeline_witness:
  "timers (setLoading True (chooseFile (Some receipt) mounted)) = [] \<and>
   emittedUpdatesRef (setLoading True (chooseFile (Some receipt) mounted)) = {} \<and>
   loading (run (replicate 9 (TimerFires 0))
      (simulateAgentUpdates 0 (setLoading True (chooseFile (Some receipt) mounted)))) \<and>
   \<not> loading (run (replicate 10 (TimerFires 0))
      (simulateAgentUpdates 0 (setLoading True (chooseFile (Some receipt) mounted)))) \<and>
   length (updates (run (replicate 10 (TimerFires 0))
      (simulateAgentUpdates 0 (setLoading True (chooseFile (Some receipt) mounted))))) = 10 \<and>
   loading (run (replicate 9 (TimerFires 0))
      (run [TimerFires 0, TimerFires 0] (session receipt uploaded))) \<and>
   \<not> loading (run (replicate 10 (TimerFires 0))
      (run [TimerFires 0, TimerFires 0] (session receipt uploaded))) \<and>
   length (updates (run (replicate 10 (TimerFires 0))
      (run [TimerFires 0, TimerFires 0] (session receipt uploaded)))) = 13"
proof -
  let ?m = "setLoading True (chooseFile (Some receipt) mounted)"
  have h: "timers ?m = [] \<and>
      (\<forall>x \<in> set (steps (file' ?m) 0). stepKey x \<notin> emittedUpdatesRef ?m)"
    by (simp add: chooseFile_def mounted_def)
  have o: "loading ?m" "updates ?m = []" by (simp_all add: chooseFile_def mounted_def)
  note a = fallback_timeline [of "Some receipt" 0 ?m 9 0 0 receipt "''OK''" "''a1b2c3d4e5f6''",
      folded uploaded_def]
  note b = fallback_timeline [of "Some receipt" 0 ?m 10 0 0 receipt "''OK''" "''a1b2c3d4e5f6''",
      folded uploaded_def]
  note a4 = a [THEN conjunct2, THEN conjunct2, THEN conjunct2, THEN conjunct1, THEN mp, OF h]
  note b4 = b [THEN conjunct2, THEN conjunct2, THEN conjunct2, THEN conjunct1, THEN mp, OF h]
  note a7 = a [THEN conjunct2, THEN conjunct2, THEN conjunct2, THEN conjunct2, THEN conjunct2,
      THEN conjunct2]
  note b6 = b [THEN conjunct2, THEN conjunct2, THEN conjunct2, THEN conjunct2, THEN conjunct2,
      THEN conjunct1]
  note b7 = b [THEN conjunct2, THEN conjunct2, THEN conjunct2, THEN conjunct2, THEN conjunct2,
      THEN conjunct2]
  have g9: "loading (run (replicate 9 (TimerFires 0)) (simulateAgentUpdates 0 ?m))"
    using a4 [THEN conjunct2] o by simp
  have g10: "\<not> loading (run (replicate 10 (TimerFires 0)) (simulateAgentUpdates 0 ?m))"
    using b4 [THEN conjunct2] by simp
  have "length (map triple
      (updates (run (replicate 10 (TimerFires 0)) (simulateAgentUpdates 0 ?m)))) = 10"
    unfolding b4 [THEN conjunct1] o by (simp add: length_steps)
  then have gl: "length (updates (run (replicate 10 (TimerFires 0))
      (simulateAgentUpdates 0 ?m))) = 10"
    by (simp del: run.simps dispatch.simps)
  have s9: "loading (run (replicate 9 (TimerFires 0))
      (run [TimerFires 0, TimerFires 0] (session receipt uploaded)))"
    using a7 by simp
  have s10: "\<not> loading (run (replicate 10 (TimerFires 0))
      (run [TimerFires 0, TimerFires 0] (session receipt uploaded)))"
    using b7 by simp
  have "length (map triple (updates (run (replicate 10 (TimerFires 0))
      (run [TimerFires 0, TimerFires 0] (session receipt uploaded))))) = 13"
    unfolding b6 unfolding uploaded_def silent_fallback(2) session_log by (simp add: length_steps)
  then have sl: "length (updates (run (replicate 10 (TimerFires 0))
      (run [TimerFires 0, TimerFires 0] (session receipt uploaded)))) = 13"
    by (simp del: run.simps dispatch.simps)
  have e: "timers ?m = []" "emittedUpdatesRef ?m = {}"
    by (simp_all add: chooseFile_def mounted_def)
  from e g9 g10 gl s9 s10 sl show ?thesis by (intro conjI)
qed

text \<open>C6 as stated fails: the timeline has ten steps, and the ninth is the
  processing step of the Synthesis Agent at 11 seconds.\<close>

theorem nine_steps_counterexample:
  "length (steps (Some receipt) 0) = 10 \<and>
   map (\<lambda>(a, st, m, d). (a, st, d)) (steps (Some receipt) 0) ! 8 =
     (''Synthesis Agent'', ''processing'', 11000)"
  unfolding steps_shape by (simp add: length_steps)

section \<open>Frames without their findings\<close>

text \<open>
  C10 (as amended). Take a frame whose status is \<open>EXTRACTED\<close>, \<open>POLICY_CHECKED\<close>,
  \<open>ANOMALY_CHECKED\<close> or \<open>REMEDIATION_COMPLETE\<close> and whose findings lack the object
  of that stage. If it carries no \<open>error\<close>, it leaves the page as it is: nothing
  is appended and the session is not marked live. If it carries an \<open>error\<close>, it
  is not taken for a stage at all but for an explicit error of the backend: a
  System error is appended, loading is cleared and the stream is closed, and
  the session is still not marked live.
\<close>

theorem missing_findings_ignored:
  assumes "(d_status d = ''EXTRACTED'' \<and> f_extraction (d_findings d) = None) \<or>
           (d_status d = ''POLICY_CHECKED'' \<and> f_policy (d_findings d) = None) \<or>
           (d_status d = ''ANOMALY_CHECKED'' \<and> f_anomaly (d_findings d) = None) \<or>
           (d_status d = ''REMEDIATION_COMPLETE'' \<and> f_remediation (d_findings d) = None)"
  shows "(d_error d = None \<longrightarrow>
            onmessage (Json d) s = s \<and> dispatch (MessageEvent (Json d)) s = s) \<and>
         (d_error d = Some e \<longrightarrow>
            onmessage (Json d) s =
              close (setLoading False
                (pushUpdate ''System'' ''error'' (cross_mark @ '' '' @ e) s)) \<and>
            hasRealUpdatesRef (onmessage (Json d) s) = hasRealUpdatesRef s)"
proof -
  from assms have "\<not> acts d" by (auto simp: acts_def)
  then have i: "stage d s = s" by (rule stage_idle)
  from assms have t: "d_status d \<noteq> ''TIMEOUT''" "d_status d \<noteq> ''DONE''" by auto
  have "onmessage (Json d) s = s \<and> dispatch (MessageEvent (Json d)) s = s"
    if "d_error d = None"
  proof -
    from i t that have "onmessage (Json d) s = s" by (simp add: onmessage_def)
    then show ?thesis by simp
  qed
  moreover have "onmessage (Json d) s =
        close (setLoading False (pushUpdate ''System'' ''error'' (cross_mark @ '' '' @ e) s)) \<and>
      hasRealUpdatesRef (onmessage (Json d) s) = hasRealUpdatesRef s"
    if "d_error d = Some e"
    using t that by (simp add: onmessage_def)
  ultimately show ?thesis by blast
qed

theorem missing_findings_ignored_witness:
  "d_status (stagePayload ''EXTRACTED'') = ''EXTRACTED'' \<and>
   f_extraction (d_findings (stagePayload ''EXTRACTED'')) = None \<and>
   d_error (stagePayload ''EXTRACTED'') = None \<and>
   dispatch (MessageEvent (Json (stagePayload ''EXTRACTED''))) (session receipt uploaded) =
     session receipt uploaded \<and>
   \<not> hasRealUpdatesRef
      (dispatch (MessageEvent (Json (stagePayload ''EXTRACTED''))) (session receipt uploaded)) \<and>
   d_status stageWithError = ''EXTRACTED'' \<and>
   f_extraction (d_findings stageWithError) = None \<and>
   d_error stageWithError = Some ''boom'' \<and>
   onmessage (Json stageWithError) (session receipt uploaded) =
     close (setLoading False
       (pushUpdate ''System'' ''error'' (cross_mark @ '' '' @ ''boom'')
          (session receipt uploaded)))"
proof -
  have h: "d_status (stagePayload ''EXTRACTED'') = ''EXTRACTED''"
    "f_extraction (d_findings (stagePayload ''EXTRACTED'')) = None"
    "d_error (stagePayload ''EXTRACTED'') = None"
    by (simp_all add: noFindings_def)
  have g: "d_status stageWithError = ''EXTRACTED''"
    "f_extraction (d_findings stageWithError) = None"
    "d_error stageWithError = Some ''boom''"
    by (simp_all add: stageWithError_def noFindings_def)
  from h(1,2) have "(d_status (stagePayload ''EXTRACTED'') = ''EXTRACTED'' \<and>
      f_extraction (d_findings (stagePayload ''EXTRACTED'')) = None) \<or>
     (d_status (stagePayload ''EXTRACTED'') = ''POLICY_CHECKED'' \<and>
      f_policy (d_findings (stagePayload ''EXTRACTED'')) = None) \<or>
     (d_status (stagePayload ''EXTRACTED'') = ''ANOMALY_CHECKED'' \<and>
      f_anomaly (d_findings (stagePayload ''EXTRACTED'')) = None) \<or>
     (d_status (stagePayload ''EXTRACTED'') = ''REMEDIATION_COMPLETE'' \<and>
      f_remediation (d_findings (stagePayload ''EXTRACTED'')) = None)"
    by blast
  from missing_findings_ignored [OF this, where s = "session receipt uploaded",
      THEN conjunct1] h(3)
  have a: "dispatch (MessageEvent (Json (stagePayload ''EXTRACTED''))) (session receipt uploaded) =
      session receipt uploaded"
    by blast
  then have b: "\<not> hasRealUpdatesRef
      (dispatch (MessageEvent (Json (stagePayload ''EXTRACTED''))) (session receipt uploaded))"
    by (simp add: uploaded_def session_streaming del: dispatch.simps)
  from g(1,2) have "(d_status stageWithError = ''EXTRACTED'' \<and>
      f_extraction (d_findings stageWithError) = None) \<or>
     (d_status stageWithError = ''POLICY_CHECKED'' \<and>
      f_policy (d_findings stageWithError) = None) \<or>
     (d_status stageWithError = ''ANOMALY_CHECKED'' \<and>
      f_anomaly (d_findings stageWithError) = None) \<or>
     (d_status stageWithError = ''REMEDIATION_COMPLETE'' \<and>
      f_remediation (d_findings stageWithError) = None)"
    by blast
  from missing_findings_ignored [OF this, where e = "''boom''"
      and s = "session receipt uploaded", THEN conjunct2] g(3)
  have c: "onmessage (Json stageWithError) (session receipt uploaded) =
     close (setLoading False
       (pushUpdate ''System'' ''error'' (cross_mark @ '' '' @ ''boom'')
          (session receipt uploaded)))"
    by blast
  from h a b g c show ?thesis by (intro conjI)
qed

text \<open>
  C10 as stated fails: a well-formed frame with the status \<open>EXTRACTED\<close>, no
  findings and an \<^verbatim>\<open>error\<close> field is not ignored. It is handled as an explicit
  error of the backend: a System error is appended, loading is cleared and the
  stream is closed.
\<close>

theorem missing_findings_error_counterexample:
  "d_status stageWithError = ''EXTRACTED'' \<and>
   f_extraction (d_findings stageWithError) = None \<and>
   updates (dispatch (MessageEvent (Json stageWithError)) (session receipt uploaded)) =
     updates (session receipt uploaded) @
     [\<lparr>agent = ''System'', status = ''error'', message = cross_mark @ '' boom'',
       timestamp = 0\<rparr>] \<and>
   eventSource (dispatch (MessageEvent (Json stageWithError)) (session receipt uploaded)) =
     Some CLOSED \<and>
   \<not> loading (dispatch (MessageEvent (Json stageWithError)) (session receipt uploaded))"
proof -
  have "d_status stageWithError = ''EXTRACTED''"
    "f_extraction (d_findings stageWithError) = None"
    by (simp_all add: stageWithError_def noFindings_def)
  moreover have "eventSource (dispatch (MessageEvent (Json stageWithError))
      (session receipt uploaded)) = Some CLOSED"
    "\<not> loading (dispatch (MessageEvent (Json stageWithError)) (session receipt uploaded))"
    unfolding explicit_error_frame by simp_all
  ultimately show ?thesis using explicit_error_log by (intro conjI)
qed

section \<open>The amount and the classification\<close>

lemmas text_defs = fileName_def isImage_def imageExtensions_def fileContent_def
  toLowerCase.simps kelvin_sign_def capital_i_dotted_def combining_dot_above_def lowerChar_def
  suffix_to_prefix

lemma image_no_content: "isImage f \<Longrightarrow> fileContent f = []"
  by (auto simp: fileContent_def split: option.splits)

lemma isImage_file:
  "isImage (Some x) =
     (prefix ''image/'' (type x) \<or> (\<exists>e \<in> set imageExtensions. suffix e (toLowerCase (name x))))"
  by (simp add: isImage_def fileName_def)

lemma text_content:
  "\<not> isImage (Some x) \<Longrightarrow>
   fileContent (Some x) = (case fileText x of Some t \<Rightarrow> t | None \<Rightarrow> [])"
  by (simp add: fileContent_def)

text \<open>The pattern finds no total in a text that does not hold the word, in any
  case of its letters.\<close>

lemma lowered_prefix:
  "map lowerChar (take n s) = p \<Longrightarrow> prefix p (map lowerChar s)"
  by (metis take_map take_is_prefix)

lemma matchTotalAt_word:
  "matchTotalAt s = Some g \<Longrightarrow> prefix ''total'' (map lowerChar s)"
  by (auto simp: matchTotalAt_def lowered_prefix split: if_splits)

lemma matchTotalAt_other: "map lowerChar (take 5 s) \<noteq> ''total'' \<Longrightarrow> matchTotalAt s = None"
  unfolding matchTotalAt_def by (simp only: simp_thms if_False)

lemma includes_prefix: "prefix p s \<Longrightarrow> includes_str s p"
  by (cases s) simp_all

lemma totalMatch_none:
  "\<not> includes_str (map lowerChar t) ''total'' \<Longrightarrow> totalMatch t = None"
proof (induction t)
  case Nil
  show ?case by simp
next
  case (Cons c cs)
  from Cons.prems have n: "\<not> prefix ''total'' (map lowerChar (c # cs))"
    and r: "\<not> includes_str (map lowerChar cs) ''total''"
    by simp_all
  from n matchTotalAt_word [of "c # cs"] have "matchTotalAt (c # cs) = None"
    by (cases "matchTotalAt (c # cs)") auto
  with Cons.IH [OF r] show ?case by simp
qed


text \<open>No match starts before an occurrence of the word when the text before it
  does not hold the word: a match cannot straddle the two.\<close>

lemma no_straddle:
  assumes "pre \<noteq> []" "length pre < 5" "map lowerChar (take 5 s) = ''total''"
  shows "map lowerChar (take 5 (pre @ s)) \<noteq> ''total''"
proof
  assume e: "map lowerChar (take 5 (pre @ s)) = ''total''"
  have "take 5 (pre @ s) = pre @ take (5 - length pre) (take 5 s)"
    using assms(2) by (simp add: min_def)
  then have "drop (length pre) (map lowerChar (take 5 (pre @ s))) =
      take (5 - length pre) (map lowerChar (take 5 s))"
    by (simp add: take_map drop_map)
  then have d: "drop (length pre) ''total'' = take (5 - length pre) ''total''"
    unfolding e assms(3) .
  from assms(1,2) consider "length pre = 1" | "length pre = 2" | "length pre = 3"
    | "length pre = 4"
    by (cases pre) (auto simp: less_Suc_eq numeral_eq_Suc)
  then show False using d by cases simp_all
qed

lemma totalMatch_skip:
  assumes "\<not> includes_str (map lowerChar pre) ''total''"
    and "map lowerChar (take 5 s) = ''total''"
  shows "totalMatch (pre @ s) = totalMatch s"
  using assms(1)
proof (induction pre)
  case Nil
  show ?case by simp
next
  case (Cons c cs)
  from Cons.prems have n: "\<not> prefix ''total'' (map lowerChar (c # cs))"
    and r: "\<not> includes_str (map lowerChar cs) ''total''"
    by simp_all
  have "map lowerChar (take 5 ((c # cs) @ s)) \<noteq> ''total''"
  proof (cases "length (c # cs) < 5")
    case True
    then show ?thesis using assms(2) by (intro no_straddle) simp_all
  next
    case False
    then have "take 5 ((c # cs) @ s) = take 5 (c # cs)" by simp
    with n lowered_prefix [of 5 "c # cs" "''total''"] show ?thesis by auto
  qed
  then have "matchTotalAt ((c # cs) @ s) = None" by (rule matchTotalAt_other)
  with Cons.IH [OF r] show ?case by simp
qed


text \<open>The pattern on a total in its plain form: the word in any case, \<open>: $\<close>,
  digits and commas, a point and digits.\<close>

lemma takeWhile_run:
  "\<forall>c \<in> set ds. P c \<Longrightarrow> rest = [] \<or> \<not> P (hd rest) \<Longrightarrow> takeWhile P (ds @ rest) = ds"
  by (cases rest) simp_all

lemma dropWhile_run:
  "\<forall>c \<in> set ds. P c \<Longrightarrow> rest = [] \<or> \<not> P (hd rest) \<Longrightarrow> dropWhile P (ds @ rest) = rest"
  by (cases rest) simp_all

lemma sepLen_dollar: "sepLen (CHR ''$'' # r) = 0"
  by (cases r; cases "tl r") (auto simp: sepLen_def wideSpaces_def)

lemma dropSeps_colon_space: "dropSeps ('': $'' @ r) = ''$'' @ r"
proof -
  have "dropSeps (CHR ''$'' # r) = CHR ''$'' # r"
    by (subst dropSeps.simps) (simp add: sepLen_dollar)
  then have "dropSeps (CHR '' '' # CHR ''$'' # r) = CHR ''$'' # r"
    by (subst dropSeps.simps) (simp add: sepLen_def)
  then have "dropSeps (CHR '':'' # CHR '' '' # CHR ''$'' # r) = CHR ''$'' # r"
    by (subst dropSeps.simps) (simp add: sepLen_def)
  then show ?thesis by simp
qed

lemma matchTotalAt_plain:
  assumes w: "map lowerChar T = ''total''"
    and "ds \<noteq> []" and "\<forall>c \<in> set ds. isDigitOrComma c" and "\<forall>c \<in> set fs. isDigit c"
    and "rest = [] \<or> \<not> isDigit (hd rest)"
  shows "matchTotalAt (T @ '': $'' @ ds @ ''.'' @ fs @ rest) = Some (ds @ ''.'' @ fs)"
proof -
  let ?r = "ds @ ''.'' @ fs @ rest"
  from w have "length (map lowerChar T) = 5" by simp
  then have l: "length T = 5" by simp
  have n: "\<not> isDigitOrComma (hd (''.'' @ fs @ rest))"
    by (simp add: isDigitOrComma_def isDigit_def)
  have t: "takeWhile isDigitOrComma ?r = ds" using assms(3) n by (intro takeWhile_run) simp_all
  have r: "dropWhile isDigitOrComma ?r = ''.'' @ fs @ rest"
    using assms(3) n by (intro dropWhile_run) simp_all
  have f: "takeWhile isDigit (fs @ rest) = fs" using assms(4,5) by (rule takeWhile_run)
  have h: "take 5 (T @ '': $'' @ ?r) = T" "drop 5 (T @ '': $'' @ ?r) = '': $'' @ ?r"
    using l by simp_all
  have s: "sepLen ('': $'' @ ?r) \<noteq> 0" by (simp add: sepLen_def)
  show ?thesis
    unfolding matchTotalAt_def h dropSeps_colon_space using w s assms(2) t r f by simp
qed

lemma totalMatch_plain:
  assumes "\<not> includes_str (map lowerChar pre) ''total''"
    and w: "map lowerChar T = ''total''"
    and "ds \<noteq> []" and "\<forall>c \<in> set ds. isDigitOrComma c" and "\<forall>c \<in> set fs. isDigit c"
    and "rest = [] \<or> \<not> isDigit (hd rest)"
  shows "totalMatch (pre @ T @ '': $'' @ ds @ ''.'' @ fs @ rest) = Some (ds @ ''.'' @ fs)"
proof -
  let ?m = "T @ '': $'' @ ds @ ''.'' @ fs @ rest"
  from w have "length (map lowerChar T) = 5" by simp
  then have l: "length T = 5" by simp
  then have "map lowerChar (take 5 ?m) = ''total''" using w by simp
  with assms(1) have "totalMatch (pre @ ?m) = totalMatch ?m" by (rule totalMatch_skip)
  moreover from l obtain c cs where "?m = c # cs" by (cases T) auto
  moreover have "matchTotalAt ?m = Some (ds @ ''.'' @ fs)"
    using assms(2-) by (rule matchTotalAt_plain)
  ultimately show ?thesis by (metis totalMatch.simps(2) option.simps(5))
qed


text \<open>For an image only the name decides.\<close>

lemma image_rules:
  assumes "isImage (Some x)"
  shows "isStarbucks (Some x) = includes_str (toLowerCase (name x)) ''starbucks''"
    and "isUber (Some x) =
      (includes_str (toLowerCase (name x)) ''uber'' \<or>
       includes_str (toLowerCase (name x)) ''taxi'')"
    and "isBar (Some x) =
      (includes_str (toLowerCase (name x)) ''bar'' \<or>
       includes_str (toLowerCase (name x)) ''alcohol'')"
    and "isStaples (Some x) =
      (includes_str (toLowerCase (name x)) ''staples'' \<or>
       includes_str (toLowerCase (name x)) ''office'')"
  using image_no_content [OF assms]
  by (simp_all add: isStarbucks_def isUber_def isBar_def isStaples_def fileName_def)

lemma image_amount:
  assumes "isImage (Some x)"
  shows "amount (Some x) =
     (if includes_str (toLowerCase (name x)) ''starbucks'' then ''25.55''
      else if includes_str (toLowerCase (name x)) ''uber'' \<or>
              includes_str (toLowerCase (name x)) ''taxi'' then ''39.53''
      else if includes_str (toLowerCase (name x)) ''bar'' \<or>
              includes_str (toLowerCase (name x)) ''alcohol'' then ''93.74''
      else if includes_str (toLowerCase (name x)) ''staples'' \<or>
              includes_str (toLowerCase (name x)) ''office'' then ''102.84''
      else ''45.00'')"
proof -
  have "totalMatch (fileContent (Some x)) = None"
    using image_no_content [OF assms] by simp
  then show ?thesis using assms by (simp add: amount_def image_rules [OF assms])
qed

lemma text_amount_plain:
  assumes "\<not> isImage (Some x)"
    and "fileText x = Some (pre @ T @ '': $'' @ ds @ ''.'' @ fs @ rest)"
    and "\<not> includes_str (map lowerChar pre) ''total''"
    and "map lowerChar T = ''total''"
    and "ds \<noteq> []" and "\<forall>c \<in> set ds. isDigitOrComma c" and "\<forall>c \<in> set fs. isDigit c"
    and "rest = [] \<or> \<not> isDigit (hd rest)"
  shows "amount (Some x) = remove1 (CHR '','') (ds @ ''.'' @ fs)"
proof -
  have "fileContent (Some x) = pre @ T @ '': $'' @ ds @ ''.'' @ fs @ rest"
    using assms(1,2) by (simp add: text_content)
  moreover have "totalMatch (pre @ T @ '': $'' @ ds @ ''.'' @ fs @ rest) = Some (ds @ ''.'' @ fs)"
    using assms(3-) by (rule totalMatch_plain)
  ultimately show ?thesis by (simp add: amount_def del: totalMatch.simps)
qed

lemma text_amount_none:
  assumes "\<not> isImage (Some x)"
    and "fileText x = None \<or> (fileText x = Some t \<and> \<not> includes_str (map lowerChar t) ''total'')"
  shows "amount (Some x) = ''0.00''"
proof -
  from assms(2) have "totalMatch (fileContent (Some x)) = None"
  proof
    assume "fileText x = None"
    with assms(1) show ?thesis by (simp add: text_content)
  next
    assume "fileText x = Some t \<and> \<not> includes_str (map lowerChar t) ''total''"
    with assms(1) show ?thesis by (simp add: text_content totalMatch_none)
  qed
  with assms(1) show ?thesis by (simp add: amount_def)
qed

text \<open>
  C7 (as amended). The amount is the group of the leftmost match of the pattern
  in the text content, with its first comma removed; the text of an image file
  is never read, so it has no match. With no match, an image file gets the
  fixed default of its category, 45.00 when it has none, and a file that is not
  an image keeps the amount 0.00, whatever its category. In terms of the file:
  for an image (by its MIME type or by the extension of its lowered name) the
  lowered name alone decides the amount; for a file that is not an image whose
  text holds, after a part without the word \<open>total\<close> in any case, that word,
  \<open>: $\<close>, digits and commas, a point and digits, the amount is that number
  without its first comma; and for a file that is not an image whose text
  cannot be read or does not hold the word, the amount is 0.00.
\<close>

theorem fallback_amount:
  "(isImage f \<longrightarrow> totalMatch (fileContent f) = None) \<and>
   (totalMatch (fileContent f) = Some g \<longrightarrow> amount f = remove1 (CHR '','') g) \<and>
   (totalMatch (fileContent f) = None \<and> isImage f \<longrightarrow>
      amount f =
        (if isStarbucks f then ''25.55''
         else if isUber f then ''39.53''
         else if isBar f then ''93.74''
         else if isStaples f then ''102.84''
         else ''45.00'')) \<and>
   (totalMatch (fileContent f) = None \<and> \<not> isImage f \<longrightarrow> amount f = ''0.00'') \<and>
   (prefix ''image/'' (type x) \<or>
    (\<exists>e \<in> set imageExtensions. suffix e (toLowerCase (name x))) \<longrightarrow>
      amount (Some x) =
        (if includes_str (toLowerCase (name x)) ''starbucks'' then ''25.55''
         else if includes_str (toLowerCase (name x)) ''uber'' \<or>
                 includes_str (toLowerCase (name x)) ''taxi'' then ''39.53''
         else if includes_str (toLowerCase (name x)) ''bar'' \<or>
                 includes_str (toLowerCase (name x)) ''alcohol'' then ''93.74''
         else if includes_str (toLowerCase (name x)) ''staples'' \<or>
                 includes_str (toLowerCase (name x)) ''office'' then ''102.84''
         else ''45.00'')) \<and>
   (\<not> prefix ''image/'' (type x) \<and>
    (\<forall>e \<in> set imageExtensions. \<not> suffix e (toLowerCase (name x))) \<and>
    fileText x = Some (pre @ T @ '': $'' @ ds @ ''.'' @ fs @ rest) \<and>
    \<not> includes_str (map lowerChar pre) ''total'' \<and> map lowerChar T = ''total'' \<and>
    ds \<noteq> [] \<and> (\<forall>c \<in> set ds. isDigitOrComma c) \<and> (\<forall>c \<in> set fs. isDigit c) \<and>
    (rest = [] \<or> \<not> isDigit (hd rest)) \<longrightarrow>
      amount (Some x) = remove1 (CHR '','') (ds @ ''.'' @ fs)) \<and>
   (\<not> prefix ''image/'' (type x) \<and>
    (\<forall>e \<in> set imageExtensions. \<not> suffix e (toLowerCase (name x))) \<and>
    (fileText x = None \<or>
     (fileText x = Some t \<and> \<not> includes_str (map lowerChar t) ''total'')) \<longrightarrow>
      amount (Some x) = ''0.00'')"
proof (intro conjI impI)
  show "totalMatch (fileContent f) = None" if "isImage f"
    using that by (simp add: image_no_content)
  show "amount f = remove1 (CHR '','') g" if "totalMatch (fileContent f) = Some g"
    using that by (simp add: amount_def)
  show "amount f =
        (if isStarbucks f then ''25.55''
         else if isUber f then ''39.53''
         else if isBar f then ''93.74''
         else if isStaples f then ''102.84''
         else ''45.00'')" if "totalMatch (fileContent f) = None \<and> isImage f"
    using that by (simp add: amount_def)
  show "amount f = ''0.00''" if "totalMatch (fileContent f) = None \<and> \<not> isImage f"
    using that by (simp add: amount_def)
  show "amount (Some x) =
        (if includes_str (toLowerCase (name x)) ''starbucks'' then ''25.55''
         else if includes_str (toLowerCase (name x)) ''uber'' \<or>
                 includes_str (toLowerCase (name x)) ''taxi'' then ''39.53''
         else if includes_str (toLowerCase (name x)) ''bar'' \<or>
                 includes_str (toLowerCase (name x)) ''alcohol'' then ''93.74''
         else if includes_str (toLowerCase (name x)) ''staples'' \<or>
                 includes_str (toLowerCase (name x)) ''office'' then ''102.84''
         else ''45.00'')"
    if "prefix ''image/'' (type x) \<or>
        (\<exists>e \<in> set imageExtensions. suffix e (toLowerCase (name x)))"
  proof (rule image_amount)
    show "isImage (Some x)" unfolding isImage_file using that .
  qed
  show "amount (Some x) = remove1 (CHR '','') (ds @ ''.'' @ fs)"
    if h: "\<not> prefix ''image/'' (type x) \<and>
      (\<forall>e \<in> set imageExtensions. \<not> suffix e (toLowerCase (name x))) \<and>
      fileText x = Some (pre @ T @ '': $'' @ ds @ ''.'' @ fs @ rest) \<and>
      \<not> includes_str (map lowerChar pre) ''total'' \<and> map lowerChar T = ''total'' \<and>
      ds \<noteq> [] \<and> (\<forall>c \<in> set ds. isDigitOrComma c) \<and> (\<forall>c \<in> set fs. isDigit c) \<and>
      (rest = [] \<or> \<not> isDigit (hd rest))"
  proof (rule text_amount_plain)
    from h have "\<not> prefix ''image/'' (type x)"
      "\<forall>e \<in> set imageExtensions. \<not> suffix e (toLowerCase (name x))"
      by simp_all
    then show "\<not> isImage (Some x)" unfolding isImage_file by blast
    from h show "fileText x = Some (pre @ T @ '': $'' @ ds @ ''.'' @ fs @ rest)"
      by simp
    from h show "\<not> includes_str (map lowerChar pre) ''total''" by simp
    from h show "map lowerChar T = ''total''" by simp
    from h show "ds \<noteq> []" by simp
    from h show "\<forall>c \<in> set ds. isDigitOrComma c" by simp
    from h show "\<forall>c \<in> set fs. isDigit c" by simp
    from h show "rest = [] \<or> \<not> isDigit (hd rest)" by simp
  qed
  show "amount (Some x) = ''0.00''"
    if h: "\<not> prefix ''image/'' (type x) \<and>
      (\<forall>e \<in> set imageExtensions. \<not> suffix e (toLowerCase (name x))) \<and>
      (fileText x = None \<or>
       (fileText x = Some t \<and> \<not> includes_str (map lowerChar t) ''total''))"
  proof (rule text_amount_none)
    from h have "\<not> prefix ''image/'' (type x)"
      "\<forall>e \<in> set imageExtensions. \<not> suffix e (toLowerCase (name x))"
      by simp_all
    then show "\<not> isImage (Some x)" unfolding isImage_file by blast
    from h show "fileText x = None \<or>
       (fileText x = Some t \<and> \<not> includes_str (map lowerChar t) ''total'')"
      by simp
  qed
qed


lemma sample_names:
  "toLowerCase (name photo) = ''img_2041.jpg''"
  "toLowerCase (name kelvinPhoto) = ''starbucks.png''"
  "toLowerCase (name lunch) = ''lunch.txt''"
  "toLowerCase (name memo) = ''notes.txt''"
  "toLowerCase (name receipt) = ''receipt.txt''"
  "toLowerCase (name coffeeAndWine) = ''receipt.txt''"
  by (simp_all add: photo_def kelvinPhoto_def lunch_def memo_def receipt_def coffeeAndWine_def
        toLowerCase.simps kelvin_sign_def capital_i_dotted_def lowerChar_def)

lemma sample_images:
  "isImage (Some photo)" "isImage (Some kelvinPhoto)"
  "\<not> prefix ''image/'' (type lunch) \<and>
   (\<forall>e \<in> set imageExtensions. \<not> suffix e (toLowerCase (name lunch)))"
  "\<not> prefix ''image/'' (type memo) \<and>
   (\<forall>e \<in> set imageExtensions. \<not> suffix e (toLowerCase (name memo)))"
  "\<not> prefix ''image/'' (type receipt) \<and>
   (\<forall>e \<in> set imageExtensions. \<not> suffix e (toLowerCase (name receipt)))"
  "\<not> prefix ''image/'' (type coffeeAndWine) \<and>
   (\<forall>e \<in> set imageExtensions. \<not> suffix e (toLowerCase (name coffeeAndWine)))"
  unfolding isImage_file sample_names
  by (simp_all add: photo_def kelvinPhoto_def lunch_def memo_def receipt_def coffeeAndWine_def
        imageExtensions_def suffix_to_prefix)

lemma sample_texts:
  "\<not> isImage (Some lunch)" "\<not> isImage (Some memo)" "\<not> isImage (Some receipt)"
  "\<not> isImage (Some coffeeAndWine)"
  "fileContent (Some memo) = ''hello''"
  "fileContent (Some receipt) = ''Total: $42.10 WINE''"
  "fileContent (Some coffeeAndWine) = ''STARBUCKS Total: $42.10 WINE''"
proof -
  show n: "\<not> isImage (Some lunch)" "\<not> isImage (Some memo)" "\<not> isImage (Some receipt)"
    "\<not> isImage (Some coffeeAndWine)"
    unfolding isImage_file using sample_images(3-) by blast+
  show "fileContent (Some memo) = ''hello''"
    "fileContent (Some receipt) = ''Total: $42.10 WINE''"
    "fileContent (Some coffeeAndWine) = ''STARBUCKS Total: $42.10 WINE''"
    by (simp_all add: text_content n) (simp_all add: memo_def receipt_def coffeeAndWine_def)
qed


lemma receipt_total: "totalMatch (fileContent (Some receipt)) = Some ''42.10''"
proof -
  have "totalMatch ([] @ ''Total'' @ '': $'' @ ''42'' @ ''.'' @ ''10'' @ '' WINE'') =
      Some (''42'' @ ''.'' @ ''10'')"
    by (rule totalMatch_plain) (simp_all add: lowerChar_def isDigitOrComma_def isDigit_def)
  then show ?thesis unfolding sample_texts by (simp del: totalMatch.simps)
qed

theorem fallback_amount_witness:
  "isImage (Some photo) \<and> totalMatch (fileContent (Some photo)) = None \<and>
   fileText photo = Some ''Total: $99.00'' \<and> amount (Some photo) = ''45.00'' \<and>
   amount (Some kelvinPhoto) = ''25.55'' \<and>
   amount (Some lunch) = ''1234.50'' \<and>
   totalMatch (fileContent (Some receipt)) = Some ''42.10'' \<and>
   amount (Some receipt) = ''42.10'' \<and>
   \<not> isImage (Some memo) \<and> totalMatch (fileContent (Some memo)) = None \<and>
   amount (Some memo) = ''0.00''"
proof -
  note p = fallback_amount [where f = "Some photo"]
  note c1 = p [THEN conjunct1]
  note c3 = p [THEN conjunct2, THEN conjunct2, THEN conjunct1]
  note c5 = fallback_amount [where x = kelvinPhoto, THEN conjunct2, THEN conjunct2,
      THEN conjunct2, THEN conjunct2, THEN conjunct1]
  note c6 = fallback_amount [where x = lunch and pre = "''Lunch for two. ''"
      and T = "''TOTAL''" and ds = "''1,234''" and fs = "''50''" and rest = "'' paid''",
      THEN conjunct2, THEN conjunct2, THEN conjunct2, THEN conjunct2, THEN conjunct2,
      THEN conjunct1]
  note c2 = fallback_amount [where f = "Some receipt" and g = "''42.10''", THEN conjunct2,
      THEN conjunct1]
  note c4 = fallback_amount [where f = "Some memo", THEN conjunct2, THEN conjunct2,
      THEN conjunct2, THEN conjunct1]
  note c7 = fallback_amount [where x = memo and t = "''hello''", THEN conjunct2,
      THEN conjunct2, THEN conjunct2, THEN conjunct2, THEN conjunct2, THEN conjunct2]
  have i: "isImage (Some photo)" by (rule sample_images)
  have p0: "totalMatch (fileContent (Some photo)) = None"
    using c1 i by (rule mp)
  have "amount (Some photo) =
        (if isStarbucks (Some photo) then ''25.55''
         else if isUber (Some photo) then ''39.53''
         else if isBar (Some photo) then ''93.74''
         else if isStaples (Some photo) then ''102.84''
         else ''45.00'')"
    using c3 p0 i by blast
  then have p1: "amount (Some photo) = ''45.00''"
    by (simp add: image_rules [OF i] sample_names)
  have t: "fileText photo = Some ''Total: $99.00''" by (simp add: photo_def)
  have "prefix ''image/'' (type kelvinPhoto) \<or>
      (\<exists>e \<in> set imageExtensions. suffix e (toLowerCase (name kelvinPhoto)))"
    by (simp add: kelvinPhoto_def)
  from mp [OF c5 this]
  have k: "amount (Some kelvinPhoto) = ''25.55''" by (simp add: sample_names)
  have "\<not> prefix ''image/'' (type lunch) \<and>
    (\<forall>e \<in> set imageExtensions. \<not> suffix e (toLowerCase (name lunch))) \<and>
    fileText lunch =
      Some (''Lunch for two. '' @ ''TOTAL'' @ '': $'' @ ''1,234'' @ ''.'' @ ''50'' @ '' paid'') \<and>
    \<not> includes_str (map lowerChar ''Lunch for two. '') ''total'' \<and>
    map lowerChar ''TOTAL'' = ''total'' \<and>
    ''1,234'' \<noteq> [] \<and> (\<forall>c \<in> set ''1,234''. isDigitOrComma c) \<and>
    (\<forall>c \<in> set ''50''. isDigit c) \<and> ('' paid'' = [] \<or> \<not> isDigit (hd '' paid''))"
    using sample_images(3)
    by (simp add: lunch_def lowerChar_def isDigitOrComma_def isDigit_def)
  from mp [OF c6 this]
  have l: "amount (Some lunch) = ''1234.50''" by simp
  have r0: "totalMatch (fileContent (Some receipt)) = Some ''42.10''" by (rule receipt_total)
  from mp [OF c2 r0]
  have r1: "amount (Some receipt) = ''42.10''" by simp
  have "\<not> prefix ''image/'' (type memo) \<and>
    (\<forall>e \<in> set imageExtensions. \<not> suffix e (toLowerCase (name memo))) \<and>
    (fileText memo = None \<or>
     (fileText memo = Some ''hello'' \<and> \<not> includes_str (map lowerChar ''hello'') ''total''))"
    using sample_images(4) by (simp add: memo_def lowerChar_def)
  from mp [OF c7 this]
  have m1: "amount (Some memo) = ''0.00''" .
  have m0: "totalMatch (fileContent (Some memo)) = None \<and> \<not> isImage (Some memo)"
    unfolding sample_texts by (simp add: matchTotalAt_def lowerChar_def sample_texts)
  from mp [OF c4 m0] have "amount (Some memo) = ''0.00''" .
  with i p0 t p1 k l r0 r1 m0 show ?thesis by (intro conjI) (elim conjE | assumption)+
qed

text \<open>C7 as stated fails: a text file that matches no rule and holds no total
  gets the amount 0.00, not 45.00.\<close>

theorem unclassified_text_amount_counterexample:
  "\<not> isImage (Some memo) \<and> \<not> isStarbucks (Some memo) \<and> \<not> isUber (Some memo) \<and>
   \<not> isBar (Some memo) \<and> \<not> isStaples (Some memo) \<and>
   totalMatch (fileContent (Some memo)) = None \<and>
   amount (Some memo) = ''0.00'' \<and> amount (Some memo) \<noteq> ''45.00''"
proof -
  have n: "\<not> isImage (Some memo)" by (rule sample_texts)
  have c: "\<not> isStarbucks (Some memo)" "\<not> isUber (Some memo)" "\<not> isBar (Some memo)"
    "\<not> isStaples (Some memo)"
    by (simp_all add: isStarbucks_def isUber_def isBar_def isStaples_def fileName_def
          sample_names sample_texts)
  have t: "totalMatch (fileContent (Some memo)) = None"
    unfolding sample_texts by (simp add: matchTotalAt_def lowerChar_def)
  then have "amount (Some memo) = ''0.00''" using n by (simp add: amount_def)
  with n c t show ?thesis by simp
qed


section \<open>A receipt that lists wine\<close>

text \<open>The log of a session whose stream stays silent, once every timer has
  fired: the notices of the upload and of the watchdog, then the ten steps.\<close>

lemma silent_log:
  "updates (drain j (session f (Response True st (ExpenseId eid)))) =
     updates (run [TimerFires j, TimerFires j] (session f (Response True st (ExpenseId eid)))) @
     map (stepEntry 30500) (steps (Some f) j)"
  "\<not> loading (drain j (session f (Response True st (ExpenseId eid))))"
  using silent_steps [of 11 j j j f st eid] unfolding silent_drain
  by (simp_all add: length_steps del: run.simps dispatch.simps)

lemma silent_log_entry:
  assumes "n < 10"
  shows "stepTriple (steps (Some f) j ! n) \<in>
           set (map triple (updates (drain j (session f (Response True st (ExpenseId eid))))))"
proof -
  have "length (steps (Some f) j) = 10" by (rule length_steps)
  then have "steps (Some f) j ! n \<in> set (steps (Some f) j)" using assms by simp
  then show ?thesis unfolding silent_log by (simp del: run.simps dispatch.simps)
qed

lemma silent_log_last:
  "last (updates (drain j (session f (Response True st (ExpenseId eid))))) =
     stepEntry 30500 (last (steps (Some f) j))"
proof -
  have "length (steps (Some f) j) = 10" by (rule length_steps)
  then have "steps (Some f) j \<noteq> []" by auto
  then show ?thesis unfolding silent_log by (simp add: last_map)
qed

lemma bar_timeline:
  assumes "\<not> isImage (Some x)" and "fileText x = Some t"
    and "totalMatch t = Some ''42.10''" and "includes_str t ''WINE''"
    and "\<not> isStarbucks (Some x)" and "\<not> isUber (Some x)"
  shows "amount (Some x) = ''42.10'' \<and> merchant (Some x) = ''Bar/Restaurant'' \<and>
         policyResult (Some x) = ''rejected'' \<and>
         steps (Some x) j ! 1 =
           (''Extraction Agent'', ''complete'',
            check_mark @ '' Extracted: Merchant='' @ dquote @ ''Bar/Restaurant'' @ dquote @
            '', Amount=$42.10, Category='' @ dquote @ ''Meals'' @ dquote,
            3500) \<and>
         steps (Some x) j ! 3 =
           (''Policy Agent'', ''complete'',
            cross_mark @
            '' **POLICY VIOLATION** - Alcoholic beverages detected. Per Policy '' @ section_sign @
            ''6.1: '' @ dquote @ ''Alcohol NOT reimbursable under any circumstances'' @ dquote,
            7000) \<and>
         last (steps (Some x) j) =
           (''Synthesis Agent'', ''complete'',
            cross_mark @
            '' **REJECTED** - Policy violation detected. Amount: $42.10. Requires remediation.'',
            13000)"
proof -
  from assms(1,2) have c: "fileContent (Some x) = t" by (simp add: fileContent_def)
  with assms(3) have a: "amount (Some x) = ''42.10''" by (simp add: amount_def)
  from c assms(4) have b: "isBar (Some x)" by (simp add: isBar_def)
  with assms(5,6) have k: "classification (Some x) =
      (''Bar/Restaurant'', ''Meals'', ''rejected'',
       cross_mark @
       '' **POLICY VIOLATION** - Alcoholic beverages detected. Per Policy '' @ section_sign @
       ''6.1: '' @ dquote @ ''Alcohol NOT reimbursable under any circumstances'' @ dquote)"
    by (simp add: classification_def)
  then have m: "merchant (Some x) = ''Bar/Restaurant''" "policyResult (Some x) = ''rejected''"
    "policyMessage (Some x) = cross_mark @
       '' **POLICY VIOLATION** - Alcoholic beverages detected. Per Policy '' @ section_sign @
       ''6.1: '' @ dquote @ ''Alcohol NOT reimbursable under any circumstances'' @ dquote"
    "category (Some x) = ''Meals''"
    by (simp_all add: merchant_def policyResult_def policyMessage_def category_def)
  have "steps (Some x) j ! 1 =
      (''Extraction Agent'', ''complete'',
       check_mark @ '' Extracted: Merchant='' @ dquote @ merchant (Some x) @ dquote @
       '', Amount=$'' @ amount (Some x) @ '', Category='' @ dquote @ category (Some x) @ dquote,
       3500)"
    using assms(1) by (simp add: steps_def)
  then have e: "steps (Some x) j ! 1 =
      (''Extraction Agent'', ''complete'',
       check_mark @ '' Extracted: Merchant='' @ dquote @ ''Bar/Restaurant'' @ dquote @
       '', Amount=$42.10, Category='' @ dquote @ ''Meals'' @ dquote, 3500)"
    unfolding m a by simp
  have p: "steps (Some x) j ! 3 = (''Policy Agent'', ''complete'', policyMessage (Some x), 7000)"
    by (simp add: steps_def)
  have "last (steps (Some x) j) =
      (''Synthesis Agent'', ''complete'',
       cross_mark @ '' **REJECTED** - Policy violation detected. Amount: $'' @ amount (Some x) @
       ''. Requires remediation.'', 13000)"
    using m(2) by (simp add: steps_def)
  then have l: "last (steps (Some x) j) =
      (''Synthesis Agent'', ''complete'',
       cross_mark @
       '' **REJECTED** - Policy violation detected. Amount: $42.10. Requires remediation.'',
       13000)"
    unfolding a by simp
  from a m(1,2) e p [unfolded m(3)] l show ?thesis by (intro conjI)
qed


text \<open>
  C8 (as amended). Take a file that is not an image, whose text holds
  \<open>Total: $42.10\<close> (not followed by a digit) after a part without the word
  \<open>total\<close>, and holds \<open>WINE\<close>, and which neither the coffee shop rule nor the
  ride rule claims (by its lowered name or by its text). Then the amount is
  42.10 and the merchant \<open>Bar/Restaurant\<close>; and when the fallback runs (the
  stream stays silent and every timer fires) the log holds the extraction with
  that merchant and amount, the policy notification that cites the alcohol rule,
  and, as its last entry, the Synthesis Agent's rejected verdict for a policy
  violation (each told by its agent, status and message); the page is no longer
  loading.
\<close>

theorem wine_receipt_rejected:
  assumes "\<not> prefix ''image/'' (type x)"
    and "\<forall>e \<in> set imageExtensions. \<not> suffix e (toLowerCase (name x))"
    and "fileText x = Some (pre @ ''Total: $42.10'' @ rest)"
    and "\<not> includes_str (map lowerChar pre) ''total''"
    and "rest = [] \<or> \<not> isDigit (hd rest)"
    and "includes_str (pre @ ''Total: $42.10'' @ rest) ''WINE''"
    and "\<forall>w \<in> set [''starbucks'', ''uber'', ''taxi'']. \<not> includes_str (toLowerCase (name x)) w"
    and "\<forall>w \<in> set [''STARBUCKS'', ''Starbucks'', ''UBER'', ''Uber''].
           \<not> includes_str (pre @ ''Total: $42.10'' @ rest) w"
  shows "amount (Some x) = ''42.10'' \<and> merchant (Some x) = ''Bar/Restaurant'' \<and>
         policyResult (Some x) = ''rejected'' \<and>
         steps (Some x) j ! 3 =
           (''Policy Agent'', ''complete'',
            cross_mark @
            '' **POLICY VIOLATION** - Alcoholic beverages detected. Per Policy '' @ section_sign @
            ''6.1: '' @ dquote @ ''Alcohol NOT reimbursable under any circumstances'' @ dquote,
            7000) \<and>
         last (steps (Some x) j) =
           (''Synthesis Agent'', ''complete'',
            cross_mark @
            '' **REJECTED** - Policy violation detected. Amount: $42.10. Requires remediation.'',
            13000) \<and>
         (''Extraction Agent'', ''complete'',
          check_mark @ '' Extracted: Merchant='' @ dquote @ ''Bar/Restaurant'' @
            dquote @ '', Amount=$42.10, Category='' @ dquote @ ''Meals'' @ dquote)
           \<in> set (map triple
                 (updates (drain j (session x (Response True st (ExpenseId eid)))))) \<and>
         (''Policy Agent'', ''complete'',
          cross_mark @
            '' **POLICY VIOLATION** - Alcoholic beverages detected. Per Policy '' @
            section_sign @ ''6.1: '' @ dquote @
            ''Alcohol NOT reimbursable under any circumstances'' @ dquote)
           \<in> set (map triple
                 (updates (drain j (session x (Response True st (ExpenseId eid)))))) \<and>
         triple (last (updates (drain j (session x (Response True st (ExpenseId eid)))))) =
           (''Synthesis Agent'', ''complete'',
            cross_mark @
              '' **REJECTED** - Policy violation detected. Amount: $42.10. Requires remediation.'') \<and>
         \<not> loading (drain j (session x (Response True st (ExpenseId eid))))"
proof -
  let ?t = "pre @ ''Total: $42.10'' @ rest"
  have n: "\<not> isImage (Some x)" unfolding isImage_file using assms(1,2) by blast
  have "totalMatch (pre @ ''Total'' @ '': $'' @ ''42'' @ ''.'' @ ''10'' @ rest) =
      Some (''42'' @ ''.'' @ ''10'')"
    using assms(4,5)
    by (intro totalMatch_plain) (simp_all add: lowerChar_def isDigitOrComma_def isDigit_def)
  then have m: "totalMatch ?t = Some ''42.10''" by (simp del: totalMatch.simps)
  have c: "fileContent (Some x) = ?t" using n assms(3) by (simp add: text_content)
  have s: "\<not> isStarbucks (Some x)" "\<not> isUber (Some x)"
    unfolding isStarbucks_def isUber_def fileName_def c using assms(7,8) by simp_all
  note b = bar_timeline [OF n assms(3) m assms(6) s, of j]
  note a = b [THEN conjunct1] b [THEN conjunct2, THEN conjunct1]
    b [THEN conjunct2, THEN conjunct2, THEN conjunct1]
  note e1 = b [THEN conjunct2, THEN conjunct2, THEN conjunct2, THEN conjunct1]
  note e3 = b [THEN conjunct2, THEN conjunct2, THEN conjunct2, THEN conjunct2, THEN conjunct1]
  note el = b [THEN conjunct2, THEN conjunct2, THEN conjunct2, THEN conjunct2, THEN conjunct2]
  have l1: "(''Extraction Agent'', ''complete'',
          check_mark @ '' Extracted: Merchant='' @ dquote @ ''Bar/Restaurant'' @
            dquote @ '', Amount=$42.10, Category='' @ dquote @ ''Meals'' @ dquote)
           \<in> set (map triple
                 (updates (drain j (session x (Response True st (ExpenseId eid))))))"
    using silent_log_entry [where n = 1 and f = x and j = j and st = st and eid = eid]
    unfolding e1 by simp
  have l3: "(''Policy Agent'', ''complete'',
          cross_mark @
            '' **POLICY VIOLATION** - Alcoholic beverages detected. Per Policy '' @
            section_sign @ ''6.1: '' @ dquote @
            ''Alcohol NOT reimbursable under any circumstances'' @ dquote)
           \<in> set (map triple
                 (updates (drain j (session x (Response True st (ExpenseId eid))))))"
    using silent_log_entry [where n = 3 and f = x and j = j and st = st and eid = eid]
    unfolding e3 by simp
  have ll: "triple (last (updates (drain j (session x (Response True st (ExpenseId eid)))))) =
           (''Synthesis Agent'', ''complete'',
            cross_mark @
              '' **REJECTED** - Policy violation detected. Amount: $42.10. Requires remediation.'')"
    unfolding silent_log_last triple_stepEntry el by simp
  from a e3 el l1 l3 ll silent_log(2) [where f = x and j = j and st = st and eid = eid]
  show ?thesis by (intro conjI)
qed


lemma receipt_rules:
  "\<not> isStarbucks (Some receipt)" "\<not> isUber (Some receipt)"
  "isStarbucks (Some coffeeAndWine)"
  by (simp_all add: isStarbucks_def isUber_def fileName_def sample_names sample_texts)

theorem wine_receipt_rejected_witness:
  "\<not> prefix ''image/'' (type receipt) \<and>
   toLowerCase (name receipt) = ''receipt.txt'' \<and>
   fileText receipt = Some ([] @ ''Total: $42.10'' @ '' WINE'') \<and>
   includes_str ([] @ ''Total: $42.10'' @ '' WINE'') ''WINE'' \<and>
   amount (Some receipt) = ''42.10'' \<and> merchant (Some receipt) = ''Bar/Restaurant'' \<and>
   triple (last (updates (drain 0 (session receipt uploaded)))) =
     (''Synthesis Agent'', ''complete'',
      cross_mark @
        '' **REJECTED** - Policy violation detected. Amount: $42.10. Requires remediation.'') \<and>
   \<not> loading (drain 0 (session receipt uploaded))"
proof -
  have h: "\<not> prefix ''image/'' (type receipt)"
    "\<forall>e \<in> set imageExtensions. \<not> suffix e (toLowerCase (name receipt))"
    "fileText receipt = Some ([] @ ''Total: $42.10'' @ '' WINE'')"
    "\<not> includes_str (map lowerChar []) ''total''"
    "'' WINE'' = [] \<or> \<not> isDigit (hd '' WINE'')"
    "includes_str ([] @ ''Total: $42.10'' @ '' WINE'') ''WINE''"
    "\<forall>w \<in> set [''starbucks'', ''uber'', ''taxi'']. \<not> includes_str (toLowerCase (name receipt)) w"
    "\<forall>w \<in> set [''STARBUCKS'', ''Starbucks'', ''UBER'', ''Uber''].
       \<not> includes_str ([] @ ''Total: $42.10'' @ '' WINE'') w"
    using sample_images(5) unfolding sample_names
    by (simp_all add: isDigit_def) (simp add: receipt_def)
  note w = wine_receipt_rejected [OF h, of 0 "''OK''" "''a1b2c3d4e5f6''", folded uploaded_def]
  note a = w [THEN conjunct1] w [THEN conjunct2, THEN conjunct1]
  note l = w [THEN conjunct2, THEN conjunct2, THEN conjunct2, THEN conjunct2, THEN conjunct2,
      THEN conjunct2, THEN conjunct2]
  from h(1) sample_names(5) h(3,6) a l show ?thesis by (intro conjI) (elim conjE | assumption)+
qed

text \<open>
  C8 as stated fails twice. The text \<open>STARBUCKS Total: $42.10 WINE\<close> holds the
  total and the word, yet the coffee shop rule comes first and the merchant is
  Starbucks. And for the text \<open>Total: $42.10 WINE\<close> itself the final synthesis
  notification names no alcohol: that is the policy step's message.
\<close>

theorem wine_receipt_counterexample:
  "includes_str (fileContent (Some coffeeAndWine)) ''Total: $42.10'' \<and>
   includes_str (fileContent (Some coffeeAndWine)) ''WINE'' \<and>
   merchant (Some coffeeAndWine) = ''Starbucks'' \<and>
   includes_str (fileContent (Some receipt)) ''Total: $42.10'' \<and>
   includes_str (fileContent (Some receipt)) ''WINE'' \<and>
   \<not> includes_str (message (last (updates (drain 0 (session receipt uploaded))))) ''lcohol'' \<and>
   \<not> includes_str (message (last (updates (drain 0 (session receipt uploaded))))) ''LCOHOL''"
proof -
  have "merchant (Some coffeeAndWine) = ''Starbucks''"
    by (simp add: merchant_def classification_def receipt_rules)
  moreover have "last (steps (Some receipt) 0) =
      (''Synthesis Agent'', ''complete'',
       cross_mark @
       '' **REJECTED** - Policy violation detected. Amount: $42.10. Requires remediation.'',
       13000)"
    using bar_timeline [of receipt "''Total: $42.10 WINE''" 0] receipt_total
    unfolding sample_texts
    by (simp add: sample_texts receipt_rules del: totalMatch.simps) (simp add: receipt_def)
  then have "message (last (updates (drain 0 (session receipt uploaded)))) =
      cross_mark @
      '' **REJECTED** - Policy violation detected. Amount: $42.10. Requires remediation.''"
    unfolding uploaded_def silent_log_last by simp
  ultimately show ?thesis
    by (simp add: sample_texts cross_mark_def)
qed

end
